theory Spec2Isabelle
  imports Main "HOL-Library.List_Lexorder"
begin

section \<open>JavaScript strings\<close>

text \<open>
  A JavaScript string is a sequence of UTF-16 code units. The module under study,
  \<^verbatim>\<open>dotenv/mod.ts\<close>, never does arithmetic on code units; it only compares them with
  fixed characters and character classes, so a code unit is modelled by its number.
  File contents are taken after \<^verbatim>\<open>TextDecoder("utf-8").decode\<close>, that is, as strings.
\<close>

type_synonym jschar = nat
type_synonym jsstring = "jschar list"

definition cu :: "char \<Rightarrow> jschar" where
  "cu ch = of_char ch"

definition js :: "string \<Rightarrow> jsstring" where
  "js s = map cu s"

definition LF :: jschar where
  "LF = 10"

text \<open>
  The class \<^verbatim>\<open>\s\<close> of a regular expression and the characters removed by
  \<^verbatim>\<open>String.prototype.trim\<close> are the same set: WhiteSpace and LineTerminator
  (TAB, LF, VT, FF, CR, SP, NBSP, U+1680, U+2000 to U+200A, U+2028, U+2029, U+202F,
  U+205F, U+3000, U+FEFF).
\<close>

definition is_space :: "jschar \<Rightarrow> bool" where
  "is_space c \<longleftrightarrow>
     c \<in> set [9, 10, 11, 12, 13, 32, 160, 5760, 8232, 8233, 8239, 8287, 12288, 65279]
     \<or> (8192 \<le> c \<and> c \<le> 8202)"

text \<open>The dot of a regular expression (no \<^verbatim>\<open>s\<close> flag) matches all but LF, CR, U+2028, U+2029.\<close>

definition is_dot :: "jschar \<Rightarrow> bool" where
  "is_dot c \<longleftrightarrow> c \<notin> set [10, 13, 8232, 8233]"

definition trim :: "jsstring \<Rightarrow> jsstring" where
  "trim s = rev (dropWhile is_space (rev (dropWhile is_space s)))"

text \<open>\<^verbatim>\<open>s.split(sep)\<close> for a separator of one code unit: never the empty array.\<close>

fun split :: "jschar \<Rightarrow> jsstring \<Rightarrow> jsstring list" where
  "split sep [] = [[]]"
| "split sep (c # cs) =
     (if c = sep then [] # split sep cs
      else (case split sep cs of [] \<Rightarrow> [[c]] | l # ls \<Rightarrow> (c # l) # ls))"

text \<open>\<^verbatim>\<open>parts.join(sep)\<close>\<close>

fun join :: "jsstring \<Rightarrow> jsstring list \<Rightarrow> jsstring" where
  "join sep [] = []"
| "join sep [p] = p"
| "join sep (p # q # ps) = p @ sep @ join sep (q # ps)"

text \<open>
  \<^verbatim>\<open>function expandNewlines(str) { return str.replaceAll("\\n", "\n"); }\<close>
  Every occurrence of the two code units backslash, \<^verbatim>\<open>n\<close> is replaced, scanning from the
  left, by one LF.
\<close>

fun expandNewlines :: "jsstring \<Rightarrow> jsstring" where
  "expandNewlines (a # b # cs) =
     (if a = cu CHR 0x5C \<and> b = cu CHR ''n'' then LF # expandNewlines cs
      else a # expandNewlines (b # cs))"
| "expandNewlines cs = cs"

section \<open>Regular expressions\<close>

text \<open>
  The two patterns of the module are kept as syntax trees and run by a backtracking
  matcher that follows the ECMAScript semantics: alternatives are tried left to right, a
  greedy quantifier tries one more iteration before it tries to stop, a lazy one the other
  way round, and an iteration of \<^verbatim>\<open>{0,}\<close> that consumes nothing is rejected.
  \<open>Rep greedy n r\<close> is the quantifier \<^verbatim>\<open>{n,}\<close> on \<open>r\<close> (\<^verbatim>\<open>*\<close> is \<open>Rep True 0\<close>,
  \<^verbatim>\<open>+?\<close> is \<open>Rep False 1\<close>). \<open>Grp g r\<close> is the named group \<^verbatim>\<open>(?<g>r)\<close>. Unnamed groups
  are only parentheses here: nothing reads their captures.
\<close>

datatype gname = Key | QuotedValue | UnQuotedValue

datatype re =
    Cls "jschar \<Rightarrow> bool"
  | Bol
  | Eps
  | Cat re re
  | Alt re re
  | Rep bool nat re
  | Grp gname re

text \<open>The weight of a pattern, by which the matcher below terminates.\<close>

fun wt :: "re \<Rightarrow> nat" where
  "wt (Cls P) = 1"
| "wt Bol = 1"
| "wt Eps = 1"
| "wt (Cat a b) = Suc (wt a + wt b)"
| "wt (Alt a b) = Suc (wt a + wt b)"
| "wt (Rep g n a) = Suc (n + wt a)"
| "wt (Grp g a) = Suc (wt a)"

text \<open>
  A matcher state is the input that is still to be read together with the captures made
  so far. \<open>ms s r st\<close> lists, in the order in which backtracking tries them, all the
  states in which a match of \<open>r\<close> begun in state \<open>st\<close> can end; \<open>s\<close> is the whole input,
  which \<^verbatim>\<open>^\<close> needs. The head of the list is the match the engine returns.
\<close>

type_synonym captures = "gname \<Rightarrow> jsstring option"
type_synonym mstate = "jsstring \<times> captures"

function ms :: "jsstring \<Rightarrow> re \<Rightarrow> mstate \<Rightarrow> mstate list" where
  "ms s (Cls P) ([], c) = []"
| "ms s (Cls P) (x # xs, c) = (if P x then [(xs, c)] else [])"
| "ms s Bol (xs, c) = (if length xs = length s then [(xs, c)] else [])"
| "ms s Eps (xs, c) = [(xs, c)]"
| "ms s (Cat a b) (xs, c) = concat (map (ms s b) (ms s a (xs, c)))"
| "ms s (Alt a b) (xs, c) = ms s a (xs, c) @ ms s b (xs, c)"
| "ms s (Grp g a) (xs, c) =
     map (\<lambda>(ys, c'). (ys, c'(g \<mapsto> take (length xs - length ys) xs))) (ms s a (xs, c))"
| "ms s (Rep greedy (Suc n) a) (xs, c) =
     concat (map (ms s (Rep greedy n a)) (ms s a (xs, c)))"
| "ms s (Rep greedy 0 a) (xs, c) =
     (let more = concat (map (\<lambda>(ys, c'). if length ys < length xs
                                            then ms s (Rep greedy 0 a) (ys, c') else [])
                             (ms s a (xs, c)))
      in if greedy then more @ [(xs, c)] else (xs, c) # more)"
  by pat_completeness auto
termination
  by (relation "inv_image (measure wt <*lex*> measure length) (\<lambda>(s, r, xs, c). (r, xs))") auto

text \<open>
  \<^verbatim>\<open>RegExp.prototype.exec\<close> without the \<^verbatim>\<open>g\<close> flag: the match is tried at index 0, 1, ...
  up to the end of the input and the first success is returned; only the named
  groups of the result are kept.
\<close>

fun exec_from :: "jsstring \<Rightarrow> re \<Rightarrow> jsstring \<Rightarrow> captures option" where
  "exec_from s r [] =
     (case ms s r ([], \<lambda>g. None) of [] \<Rightarrow> None | (ys, c) # _ \<Rightarrow> Some c)"
| "exec_from s r (x # xs) =
     (case ms s r (x # xs, \<lambda>g. None) of [] \<Rightarrow> exec_from s r xs | (ys, c) # _ \<Rightarrow> Some c)"

definition exec :: "re \<Rightarrow> jsstring \<Rightarrow> captures option" where
  "exec r s = exec_from s r s"

definition test :: "re \<Rightarrow> jsstring \<Rightarrow> bool" where
  "test r s \<longleftrightarrow> exec r s \<noteq> None"

definition cats :: "re list \<Rightarrow> re" where
  "cats rs = foldr Cat rs Eps"

definition chr :: "char \<Rightarrow> re" where
  "chr ch = Cls (\<lambda>c. c = cu ch)"

text \<open>\<^verbatim>\<open>const RE_VariableStart = /^\s*[a-zA-Z_][a-zA-Z_0-9 ]*\s*=/;\<close>\<close>

definition is_letter :: "jschar \<Rightarrow> bool" where
  "is_letter c \<longleftrightarrow> (cu CHR ''a'' \<le> c \<and> c \<le> cu CHR ''z'')
                 \<or> (cu CHR ''A'' \<le> c \<and> c \<le> cu CHR ''Z'') \<or> c = cu CHR ''_''"

definition is_alnum_sp :: "jschar \<Rightarrow> bool" where
  "is_alnum_sp c \<longleftrightarrow> is_letter c \<or> (cu CHR ''0'' \<le> c \<and> c \<le> cu CHR ''9'') \<or> c = cu CHR '' ''"

definition RE_VariableStart :: re where
  "RE_VariableStart =
     cats [Bol, Rep True 0 (Cls is_space), Cls is_letter, Rep True 0 (Cls is_alnum_sp),
           Rep True 0 (Cls is_space), chr CHR ''='']"

text \<open>
  \<^verbatim>\<open>const RE_KeyValue = /\s{0,}(?<key>[^\s]+?)\s{0,}=\ {0,}(["'](?<quotedValue>(.|\n){0,})["']|(?<unQuotedValue>[^#]{0,}))/;\<close>
\<close>

definition is_quote :: "jschar \<Rightarrow> bool" where
  "is_quote c \<longleftrightarrow> c = cu CHR 0x22 \<or> c = cu CHR 0x27"

definition RE_KeyValue :: re where
  "RE_KeyValue =
     cats [Rep True 0 (Cls is_space),
           Grp Key (Rep False 1 (Cls (\<lambda>c. \<not> is_space c))),
           Rep True 0 (Cls is_space),
           chr CHR ''='',
           Rep True 0 (chr CHR '' ''),
           Alt (cats [Cls is_quote,
                      Grp QuotedValue (Rep True 0 (Alt (Cls is_dot) (Cls (\<lambda>c. c = LF)))),
                      Cls is_quote])
               (Grp UnQuotedValue (Rep True 0 (Cls (\<lambda>c. c \<noteq> cu CHR ''#''))))]"

section \<open>Objects\<close>

text \<open>
  A \<^verbatim>\<open>DotenvConfig\<close> is a plain object whose own properties are strings. It is modelled by
  the list of its own properties in the order of their creation; \<open>get\<close> reads an own
  property and \<open>put\<close> is the assignment \<^verbatim>\<open>o[k] = v\<close>, which keeps the place of a
  property that exists and appends a new one.
\<close>

type_synonym obj = "(jsstring \<times> jsstring) list"

definition get :: "obj \<Rightarrow> jsstring \<Rightarrow> jsstring option" where
  "get ob k = map_of ob k"

fun put :: "obj \<Rightarrow> jsstring \<Rightarrow> jsstring \<Rightarrow> obj" where
  "put [] k v = [(k, v)]"
| "put ((k', v') # ob) k v = (if k' = k then (k, v) # ob else (k', v') # put ob k v)"

text \<open>
  The order of \<^verbatim>\<open>Object.keys\<close> and of \<^verbatim>\<open>for ... in\<close>: first the keys that are array
  indices (canonical decimal numerals below \<open>2^32 - 1\<close>) in ascending numeric order, then
  the other keys in the order of their creation.
\<close>

definition is_digit :: "jschar \<Rightarrow> bool" where
  "is_digit c \<longleftrightarrow> cu CHR ''0'' \<le> c \<and> c \<le> cu CHR ''9''"

definition numeric_value :: "jsstring \<Rightarrow> nat" where
  "numeric_value k = foldl (\<lambda>n c. 10 * n + (c - cu CHR ''0'')) 0 k"

definition is_array_index :: "jsstring \<Rightarrow> bool" where
  "is_array_index k \<longleftrightarrow>
     k \<noteq> [] \<and> list_all is_digit k \<and> (k = [cu CHR ''0''] \<or> hd k \<noteq> cu CHR ''0'')
     \<and> numeric_value k < 4294967295"

definition keys :: "obj \<Rightarrow> jsstring list" where
  "keys ob =
     (let ks = remdups (map fst ob)
      in sort_key numeric_value (filter is_array_index ks)
         @ filter (\<lambda>k. \<not> is_array_index k) ks)"

text \<open>
  \<^verbatim>\<open>k in o\<close> holds for the own properties of \<open>o\<close> and for the properties that a plain
  object inherits from \<^verbatim>\<open>Object.prototype\<close>. (Deno removes \<^verbatim>\<open>__proto__\<close> from
  \<^verbatim>\<open>Object.prototype\<close>, so that name is an ordinary key there.)
\<close>

definition Object_prototype_names :: "jsstring list" where
  "Object_prototype_names =
     map js [''constructor'', ''hasOwnProperty'', ''isPrototypeOf'', ''propertyIsEnumerable'',
             ''toLocaleString'', ''toString'', ''valueOf'', ''__defineGetter__'',
             ''__defineSetter__'', ''__lookupGetter__'', ''__lookupSetter__'']"

definition has_property :: "jsstring \<Rightarrow> obj \<Rightarrow> bool" where
  "has_property k ob \<longleftrightarrow> get ob k \<noteq> None \<or> k \<in> set Object_prototype_names"

section \<open>The line parser\<close>

text \<open>
  What a read throws when it fails for another reason than a missing file, and what the
  module throws: a TypeError of the language, the failure of a read passed on, or the
  module's own \<^verbatim>\<open>MissingEnvVarsError\<close> with its message.
\<close>

datatype failure = PermissionDenied | OtherFailure string

datatype error =
    TypeError
  | ReadFailure failure
  | MissingEnvVarsError jsstring

text \<open>
  The body of the loop of \<^verbatim>\<open>parse\<close>:
  \<^verbatim>\<open>
    if (!RE_VariableStart.test(line)) continue;
    const { key: newKey, quotedValue, unQuotedValue } = line.match(RE_KeyValue)?.groups as LineParseResult;
    env[newKey] = quotedValue ? expandNewlines(quotedValue) : unQuotedValue.trim();
  \<close>
  The cast has no effect at run time. Destructuring \<^verbatim>\<open>undefined\<close> (no match) throws a
  TypeError; a group that took no part in the match is \<^verbatim>\<open>undefined\<close>; the empty string and
  \<^verbatim>\<open>undefined\<close> are falsy; \<^verbatim>\<open>undefined.trim()\<close> throws a TypeError; the property key made
  from \<^verbatim>\<open>undefined\<close> is the string \<^verbatim>\<open>"undefined"\<close>.
\<close>

definition parse_line :: "obj \<Rightarrow> jsstring \<Rightarrow> error + obj" where
  "parse_line env line =
     (if \<not> test RE_VariableStart line then Inr env
      else case exec RE_KeyValue line of
        None \<Rightarrow> Inl TypeError
      | Some groups \<Rightarrow>
          (let newKey = (case groups Key of None \<Rightarrow> js ''undefined'' | Some k \<Rightarrow> k);
               quotedValue = groups QuotedValue;
               unQuotedValue = groups UnQuotedValue
           in if quotedValue \<noteq> None \<and> quotedValue \<noteq> Some []
              then Inr (put env newKey (expandNewlines (the quotedValue)))
              else (case unQuotedValue of
                      None \<Rightarrow> Inl TypeError
                    | Some u \<Rightarrow> Inr (put env newKey (trim u)))))"

fun parse_lines :: "obj \<Rightarrow> jsstring list \<Rightarrow> error + obj" where
  "parse_lines env [] = Inr env"
| "parse_lines env (line # rest) =
     (case parse_line env line of Inl e \<Rightarrow> Inl e | Inr env' \<Rightarrow> parse_lines env' rest)"

definition parse :: "jsstring \<Rightarrow> error + obj" where
  "parse rawDotenv = parse_lines [] (split LF rawDotenv)"

section \<open>The helpers of \<^verbatim>\<open>util.ts\<close>\<close>

text \<open>
  \<^verbatim>\<open>mod.ts\<close> imports \<^verbatim>\<open>difference\<close> and \<^verbatim>\<open>removeEmptyValues\<close> from \<^verbatim>\<open>./util.ts\<close>, a file
  that is not among the sources at hand. Both are modelled from the specification.
\<close>

text \<open>
  Modelled from the spec: \<^verbatim>\<open>difference\<close> of \<^verbatim>\<open>util.ts\<close> is missing. The specification
  calls its result the missing set, the keys of the example map that are not among the
  present keys, and has the error carry the sorted list of the missing key names;
  \<^verbatim>\<open>assertSafe\<close> joins what \<^verbatim>\<open>difference\<close> returns as it is. So the result is the set of
  the elements of the first array that do not occur in the second, as a sorted list (in
  the order of strings by code units).
\<close>

definition difference :: "jsstring list \<Rightarrow> jsstring list \<Rightarrow> jsstring list" where
  "difference arrA arrB = sort (remdups (filter (\<lambda>a. a \<notin> set arrB) arrA))"

text \<open>
  Modelled from the spec: \<^verbatim>\<open>removeEmptyValues\<close> of \<^verbatim>\<open>util.ts\<close> is missing. The
  specification: if \<^verbatim>\<open>allowEmptyValues\<close> is false, a key counts as present only if its value
  is non-empty. The result is the object with the properties whose value is not the empty
  string.
\<close>

definition removeEmptyValues :: "obj \<Rightarrow> obj" where
  "removeEmptyValues ob =
     List.map_filter
       (\<lambda>k. case get ob k of None \<Rightarrow> None | Some v \<Rightarrow> if v = [] then None else Some (k, v))
       (keys ob)"

section \<open>The host: files and the process environment\<close>

text \<open>
  Reading a file yields its text, or throws \<^verbatim>\<open>Deno.errors.NotFound\<close>, or throws something
  else. \<^verbatim>\<open>Deno.readFileSync\<close> may be missing altogether (on Deno Deploy, as the comment in
  \<^verbatim>\<open>parseFile\<close> says); \<open>readFileSync h = None\<close> stands for
  \<^verbatim>\<open>typeof Deno.readFileSync !== "function"\<close>.
\<close>

datatype read = Contents jsstring | NotFound | Fails failure

record host =
  readFileSync :: "(jsstring \<Rightarrow> read) option"
  readFile :: "jsstring \<Rightarrow> read"

text \<open>
  The process environment is a store of named strings: \<^verbatim>\<open>Deno.env.get(k)\<close> is \<open>get env k\<close>
  (\<open>None\<close> for \<^verbatim>\<open>undefined\<close>), \<^verbatim>\<open>Deno.env.set(k, v)\<close> is \<open>put env k v\<close> and
  \<^verbatim>\<open>Deno.env.toObject()\<close> is the store seen as an object.
\<close>

type_synonym environ = obj

definition toObject :: "environ \<Rightarrow> obj" where
  "toObject env = env"

text \<open>
  \<^verbatim>\<open>Object.assign(target, source)\<close>: each own property of the source is assigned to the
  target, in the order of the keys of the source.
\<close>

definition assign_key :: "obj \<Rightarrow> obj \<Rightarrow> jsstring \<Rightarrow> obj" where
  "assign_key source target k = (case get source k of None \<Rightarrow> target | Some v \<Rightarrow> put target k v)"

definition assign :: "obj \<Rightarrow> obj \<Rightarrow> obj" where
  "assign target source = foldl (assign_key source) target (keys source)"

text \<open>\<^verbatim>\<open>Object.assign(target, source1, source2)\<close>: the sources from left to right.\<close>

definition Object_assign :: "obj \<Rightarrow> obj \<Rightarrow> obj \<Rightarrow> obj" where
  "Object_assign target source1 source2 = assign (assign target source1) source2"

section \<open>The config resolver\<close>

text \<open>The options as the caller gives them: a property that is left out is \<open>None\<close>.\<close>

record ConfigOptions =
  opt_path :: "jsstring option"
  opt_export :: "bool option"
  opt_safe :: "bool option"
  opt_example :: "jsstring option"
  opt_allowEmptyValues :: "bool option"
  opt_defaults :: "jsstring option"

text \<open>\<^verbatim>\<open>Required<ConfigOptions>\<close>, the type of \<^verbatim>\<open>defaultConfigOptions\<close> and of \<^verbatim>\<open>o\<close>.\<close>

record Required_ConfigOptions =
  path :: jsstring
  export :: bool
  safe :: bool
  example :: jsstring
  allowEmptyValues :: bool
  defaults :: jsstring

definition defaultConfigOptions :: Required_ConfigOptions where
  "defaultConfigOptions =
     \<lparr> path = js ''.env'', export = False, safe = False, example = js ''.env.example'',
       allowEmptyValues = False, defaults = js ''.env.defaults'' \<rparr>"

text \<open>\<^verbatim>\<open>{ ...d, ...options }\<close>\<close>

definition spread :: "Required_ConfigOptions \<Rightarrow> ConfigOptions \<Rightarrow> Required_ConfigOptions" where
  "spread d options =
     \<lparr> path = (case opt_path options of None \<Rightarrow> path d | Some v \<Rightarrow> v),
       export = (case opt_export options of None \<Rightarrow> export d | Some v \<Rightarrow> v),
       safe = (case opt_safe options of None \<Rightarrow> safe d | Some v \<Rightarrow> v),
       example = (case opt_example options of None \<Rightarrow> example d | Some v \<Rightarrow> v),
       allowEmptyValues =
         (case opt_allowEmptyValues options of None \<Rightarrow> allowEmptyValues d | Some v \<Rightarrow> v),
       defaults = (case opt_defaults options of None \<Rightarrow> defaults d | Some v \<Rightarrow> v) \<rparr>"

text \<open>The options object \<^verbatim>\<open>{}\<close>.\<close>

definition no_options :: ConfigOptions where
  "no_options =
     \<lparr> opt_path = None, opt_export = None, opt_safe = None, opt_example = None,
       opt_allowEmptyValues = None, opt_defaults = None \<rparr>"

text \<open>
  \<^verbatim>\<open>parseFile\<close>: the empty object when \<^verbatim>\<open>Deno.readFileSync\<close> is not a function or throws
  NotFound; anything else that is thrown, by the read or by \<^verbatim>\<open>parse\<close>, is thrown again.
\<close>

definition parseFile :: "host \<Rightarrow> jsstring \<Rightarrow> error + obj" where
  "parseFile h filepath =
     (case readFileSync h of
        None \<Rightarrow> Inr []
      | Some read_sync \<Rightarrow>
          (case read_sync filepath of
             Contents text \<Rightarrow> parse text
           | NotFound \<Rightarrow> Inr []
           | Fails e \<Rightarrow> Inl (ReadFailure e)))"

text \<open>\<^verbatim>\<open>parseFileAsync\<close>: the same on \<^verbatim>\<open>Deno.readFile\<close>, without the test for the function.\<close>

definition parseFileAsync :: "host \<Rightarrow> jsstring \<Rightarrow> error + obj" where
  "parseFileAsync h filepath =
     (case readFile h filepath of
        Contents text \<Rightarrow> parse text
      | NotFound \<Rightarrow> Inr []
      | Fails e \<Rightarrow> Inl (ReadFailure e))"

text \<open>
  \<^verbatim>\<open>errorMessages.filter(Boolean)\<close> on an array of strings and \<^verbatim>\<open>false\<close> (here \<open>None\<close>): the
  empty string is falsy as well.
\<close>

definition filter_Boolean :: "jsstring option list \<Rightarrow> jsstring list" where
  "filter_Boolean msgs =
     List.map_filter (\<lambda>m. case m of None \<Rightarrow> None | Some t \<Rightarrow> if t = [] then None else Some t) msgs"

definition assertSafe :: "environ \<Rightarrow> obj \<Rightarrow> obj \<Rightarrow> bool \<Rightarrow> error + unit" where
  "assertSafe env conf confExample allowEmpty =
     (let currentEnv = toObject env;
          confWithEnv = Object_assign [] currentEnv conf;
          missing = difference (keys confExample)
                      (keys (if allowEmpty then confWithEnv else removeEmptyValues confWithEnv))
      in if length missing > 0
         then
           (let errorMessages =
                  [Some (js ''The following variables were defined in the example file but are not present in the environment:''
                         @ [LF] @ js ''  '' @ join (js '', '') missing),
                   Some (js ''Make sure to add them to your env file.''),
                   if \<not> allowEmpty
                   then Some (js ''If you expect any of these variables to be empty, you can set the allowEmptyValues option to true.'')
                   else None]
            in Inl (MissingEnvVarsError (join [LF, LF] (filter_Boolean errorMessages))))
         else Inr ())"

text \<open>
  The loop over the defaults:
  \<^verbatim>\<open>for (const key in confDefaults) { if (!(key in conf)) { conf[key] = confDefaults[key]; } }\<close>
\<close>

definition merge_key :: "obj \<Rightarrow> obj \<Rightarrow> jsstring \<Rightarrow> obj" where
  "merge_key confDefaults conf k =
     (if \<not> has_property k conf
      then (case get confDefaults k of None \<Rightarrow> conf | Some v \<Rightarrow> put conf k v)
      else conf)"

definition merge_defaults :: "obj \<Rightarrow> obj \<Rightarrow> obj" where
  "merge_defaults conf confDefaults = foldl (merge_key confDefaults) conf (keys confDefaults)"

text \<open>
  The loop of the export:
  \<^verbatim>\<open>for (const key in conf) { if (Deno.env.get(key) !== undefined) continue; Deno.env.set(key, conf[key]); }\<close>
\<close>

definition export_key :: "obj \<Rightarrow> environ \<Rightarrow> jsstring \<Rightarrow> environ" where
  "export_key conf env k =
     (if get env k \<noteq> None then env
      else (case get conf k of None \<Rightarrow> env | Some v \<Rightarrow> put env k v))"

definition export_conf :: "obj \<Rightarrow> environ \<Rightarrow> environ" where
  "export_conf conf env = foldl (export_key conf) env (keys conf)"

text \<open>
  \<^verbatim>\<open>configSync\<close> and \<^verbatim>\<open>config\<close> take the host and the process environment and return what
  the call returns or throws together with the process environment after the call.
  \<open>opts\<close> is the \<^verbatim>\<open>o\<close> of the source.
\<close>

definition configSync :: "host \<Rightarrow> ConfigOptions \<Rightarrow> environ \<Rightarrow> (error + obj) \<times> environ" where
  "configSync h options env =
     (let opts = spread defaultConfigOptions options in
      case parseFile h (path opts) of
        Inl e \<Rightarrow> (Inl e, env)
      | Inr conf0 \<Rightarrow>
          (case (if defaults opts \<noteq> []
                 then (case parseFile h (defaults opts) of
                         Inl e \<Rightarrow> Inl e
                       | Inr confDefaults \<Rightarrow> Inr (merge_defaults conf0 confDefaults))
                 else Inr conf0) of
             Inl e \<Rightarrow> (Inl e, env)
           | Inr conf \<Rightarrow>
               (case (if safe opts
                      then (case parseFile h (example opts) of
                              Inl e \<Rightarrow> Inl e
                            | Inr confExample \<Rightarrow> assertSafe env conf confExample (allowEmptyValues opts))
                      else Inr ()) of
                  Inl e \<Rightarrow> (Inl e, env)
                | Inr u \<Rightarrow> (Inr conf, if export opts then export_conf conf env else env))))"

definition config :: "host \<Rightarrow> ConfigOptions \<Rightarrow> environ \<Rightarrow> (error + obj) \<times> environ" where
  "config h options env =
     (let opts = spread defaultConfigOptions options in
      case parseFileAsync h (path opts) of
        Inl e \<Rightarrow> (Inl e, env)
      | Inr conf0 \<Rightarrow>
          (case (if defaults opts \<noteq> []
                 then (case parseFileAsync h (defaults opts) of
                         Inl e \<Rightarrow> Inl e
                       | Inr confDefaults \<Rightarrow> Inr (merge_defaults conf0 confDefaults))
                 else Inr conf0) of
             Inl e \<Rightarrow> (Inl e, env)
           | Inr conf \<Rightarrow>
               (case (if safe opts
                      then (case parseFileAsync h (example opts) of
                              Inl e \<Rightarrow> Inl e
                            | Inr confExample \<Rightarrow> assertSafe env conf confExample (allowEmptyValues opts))
                      else Inr ()) of
                  Inl e \<Rightarrow> (Inl e, env)
                | Inr u \<Rightarrow> (Inr conf, if export opts then export_conf conf env else env))))"

text \<open>
  What the specification calls present: with \<^verbatim>\<open>allowEmptyValues\<close> false a key counts as
  present only if its value is non-empty, otherwise presence alone suffices.
\<close>

definition present :: "bool \<Rightarrow> obj \<Rightarrow> jsstring \<Rightarrow> bool" where
  "present allowEmpty ob k = (case get ob k of None \<Rightarrow> False | Some v \<Rightarrow> allowEmpty \<or> v \<noteq> [])"

text \<open>
  The environment-overlaid configuration in the words of the specification: the union of
  the process environment with the merged map, where process-environment values win on
  conflict.
\<close>

definition spec_overlay :: "environ \<Rightarrow> obj \<Rightarrow> obj" where
  "spec_overlay env conf = Object_assign [] conf (toObject env)"

section \<open>Hosts for the examples\<close>

text \<open>A file system that holds the listed files and nothing else.\<close>

definition file_system :: "(jsstring \<times> jsstring) list \<Rightarrow> jsstring \<Rightarrow> read" where
  "file_system fs p = (case map_of fs p of None \<Rightarrow> NotFound | Some text \<Rightarrow> Contents text)"

text \<open>The Deno command line: both read functions exist and see the same files.\<close>

definition deno_host :: "(jsstring \<times> jsstring) list \<Rightarrow> host" where
  "deno_host fs = \<lparr> readFileSync = Some (file_system fs), readFile = file_system fs \<rparr>"

text \<open>A host without \<^verbatim>\<open>Deno.readFileSync\<close>.\<close>

definition deploy_host :: "(jsstring \<times> jsstring) list \<Rightarrow> host" where
  "deploy_host fs = \<lparr> readFileSync = None, readFile = file_system fs \<rparr>"

text \<open>A continuation of \<open>ms\<close> on \<open>Rep greedy 0 a\<close>: the next iteration, if the last one made progress.\<close>

definition again :: "jsstring \<Rightarrow> bool \<Rightarrow> re \<Rightarrow> nat \<Rightarrow> mstate \<Rightarrow> mstate list" where
  "again s greedy a n st = (if length (fst st) < n then ms s (Rep greedy 0 a) st else [])"

text \<open>The named groups that occur in a pattern.\<close>

fun groups_of :: "re \<Rightarrow> gname set" where
  "groups_of (Cat a b) = groups_of a \<union> groups_of b"
| "groups_of (Alt a b) = groups_of a \<union> groups_of b"
| "groups_of (Rep greedy n a) = groups_of a"
| "groups_of (Grp g a) = insert g (groups_of a)"
| "groups_of r = {}"

section \<open>Running the model\<close>

text \<open>
  The equation of \<open>ms\<close> for \<open>Rep greedy 0 a\<close> has its recursive call below a binder; for
  rewriting it is restated with \<open>again\<close>, and the character classes are unfolded on
  numerals only.
\<close>


lemma ms_Rep0:
  "ms s (Rep g 0 a) (xs, c) =
     (if g then concat (map (again s g a (length xs)) (ms s a (xs, c))) @ [(xs, c)]
      else (xs, c) # concat (map (again s g a (length xs)) (ms s a (xs, c))))"
proof -
  have "(\<lambda>(ys, c'). if length ys < length xs then ms s (Rep g 0 a) (ys, c') else [])
        = again s g a (length xs)"
    by (auto simp: again_def fun_eq_iff)
  then show ?thesis by (simp add: Let_def)
qed

lemma class_eval:
  "is_space (numeral k) \<longleftrightarrow> numeral k \<in> set [9, 10, 11, 12, 13, 32, 160, 5760, 8232, 8233, 8239, 8287, 12288, 65279::nat]
     \<or> (8192 \<le> (numeral k :: nat) \<and> (numeral k :: nat) \<le> 8202)"
  "is_dot (numeral k) \<longleftrightarrow> numeral k \<notin> set [10, 13, 8232, 8233::nat]"
  "is_letter (numeral k) \<longleftrightarrow> (cu CHR ''a'' \<le> numeral k \<and> numeral k \<le> cu CHR ''z'')
                 \<or> (cu CHR ''A'' \<le> numeral k \<and> numeral k \<le> cu CHR ''Z'') \<or> numeral k = cu CHR ''_''"
  "is_alnum_sp (numeral k) \<longleftrightarrow> is_letter (numeral k) \<or> (cu CHR ''0'' \<le> numeral k \<and> numeral k \<le> cu CHR ''9'') \<or> numeral k = cu CHR '' ''"
  "is_quote (numeral k) \<longleftrightarrow> numeral k = cu CHR 0x22 \<or> numeral k = cu CHR 0x27"
  "is_digit (numeral k) \<longleftrightarrow> cu CHR ''0'' \<le> numeral k \<and> numeral k \<le> cu CHR ''9''"
  by (simp_all only: is_space_def is_dot_def is_letter_def is_alnum_sp_def is_quote_def is_digit_def)

lemmas regex_eval = ms.simps(1-8) ms_Rep0 again_def cats_def chr_def
  RE_VariableStart_def RE_KeyValue_def exec_def test_def class_eval
lemmas string_eval = cu_def js_def LF_def trim_def
lemmas parse_eval = regex_eval string_eval parse_line_def parse_def
lemmas object_eval = get_def keys_def is_array_index_def numeric_value_def has_property_def
  Object_prototype_names_def assign_def assign_key_def Object_assign_def toObject_def
lemmas config_eval = parse_eval object_eval configSync_def config_def spread_def defaultConfigOptions_def
  no_options_def parseFile_def parseFileAsync_def deno_host_def deploy_host_def file_system_def
  merge_defaults_def merge_key_def export_conf_def export_key_def assertSafe_def difference_def
  removeEmptyValues_def filter_Boolean_def Let_def
declare ms.simps [simp del]



section \<open>Objects and the loops over their keys\<close>

lemma get_put: "get (put ob k v) k' = (if k' = k then Some v else get ob k')"
  by (induction ob) (auto simp: get_def)

lemma set_keys: "set (keys ob) = fst ` set ob"
  by (auto simp: keys_def Let_def)

lemma in_keys_iff: "k \<in> set (keys ob) \<longleftrightarrow> get ob k \<noteq> None"
  by (simp add: set_keys get_def map_of_eq_None_iff)

lemma get_export_key:
  "get (export_key conf env a) k
   = (case get env k of Some v \<Rightarrow> Some v | None \<Rightarrow> if k = a then get conf k else None)"
  by (auto simp: export_key_def get_put split: option.splits)

lemma get_assign_key:
  "get (assign_key source target a) k
   = (if k = a then (case get source k of Some v \<Rightarrow> Some v | None \<Rightarrow> get target k)
      else get target k)"
  by (auto simp: assign_key_def get_put split: option.splits)

lemma get_merge_key:
  "get (merge_key d conf a) k
   = (case get conf k of Some v \<Rightarrow> Some v
      | None \<Rightarrow> if k = a \<and> k \<notin> set Object_prototype_names then get d k else None)"
  by (auto simp: merge_key_def get_put has_property_def split: option.splits)

lemma get_export_fold:
  "get (foldl (export_key conf) env ks) k
   = (case get env k of Some v \<Rightarrow> Some v | None \<Rightarrow> if k \<in> set ks then get conf k else None)"
proof (induction ks arbitrary: env)
  case Nil
  then show ?case by (simp split: option.splits)
next
  case (Cons a ks)
  show ?case
    by (auto simp: Cons.IH get_export_key split: option.splits)
qed

lemma get_export_conf:
  "get (export_conf conf env) k = (case get env k of Some v \<Rightarrow> Some v | None \<Rightarrow> get conf k)"
  unfolding export_conf_def get_export_fold
  by (auto simp: in_keys_iff split: option.splits)

lemma get_assign_fold:
  "get (foldl (assign_key source) target ks) k
   = (if k \<in> set ks then (case get source k of Some v \<Rightarrow> Some v | None \<Rightarrow> get target k)
      else get target k)"
proof (induction ks arbitrary: target)
  case Nil
  then show ?case by simp
next
  case (Cons a ks)
  show ?case
    by (auto simp: Cons.IH get_assign_key split: option.splits)
qed

lemma get_assign:
  "get (assign target source) k = (case get source k of Some v \<Rightarrow> Some v | None \<Rightarrow> get target k)"
  unfolding assign_def get_assign_fold
  by (auto simp: in_keys_iff split: option.splits)

lemma get_merge_fold:
  "get (foldl (merge_key d) conf ks) k
   = (case get conf k of Some v \<Rightarrow> Some v
      | None \<Rightarrow> if k \<in> set ks \<and> k \<notin> set Object_prototype_names then get d k else None)"
proof (induction ks arbitrary: conf)
  case Nil
  then show ?case by (simp split: option.splits)
next
  case (Cons a ks)
  show ?case
    by (auto simp: Cons.IH get_merge_key split: option.splits)
qed

lemma get_merge_defaults:
  "get (merge_defaults conf d) k
   = (case get conf k of Some v \<Rightarrow> Some v
      | None \<Rightarrow> if k \<in> set Object_prototype_names then None else get d k)"
  unfolding merge_defaults_def get_merge_fold
  by (auto simp: in_keys_iff split: option.splits)


section \<open>The loaders leave the process environment alone\<close>


lemma snd_configSync:
  "snd (configSync h options env) = env \<or>
   (export (spread defaultConfigOptions options) \<and>
    (\<exists>conf. fst (configSync h options env) = Inr conf
       \<and> snd (configSync h options env) = export_conf conf env))"
  by (auto simp: configSync_def Let_def split: sum.splits)

lemma snd_config:
  "snd (config h options env) = env \<or>
   (export (spread defaultConfigOptions options) \<and>
    (\<exists>conf. fst (config h options env) = Inr conf
       \<and> snd (config h options env) = export_conf conf env))"
  by (auto simp: config_def Let_def split: sum.splits)

lemma export_spread:
  "export (spread defaultConfigOptions options) \<longleftrightarrow> opt_export options = Some True"
  by (simp add: spread_def defaultConfigOptions_def split: option.splits)

text \<open>
  C3. Whatever the options, the files and the outcome of the call, a key that the process
  environment defines before \<^verbatim>\<open>configSync\<close> or \<^verbatim>\<open>config\<close> has the same value after it; this
  covers a call with \<^verbatim>\<open>export: true\<close> whose merged map binds the key to another value.
\<close>

theorem export_keeps_defined_keys:
  assumes "get env k = Some v"
  shows "get (snd (configSync h options env)) k = Some v
       \<and> get (snd (config h options env)) k = Some v"
  using assms snd_configSync [of h options env] snd_config [of h options env]
  by (auto simp: get_export_conf)

text \<open>
  The environment defines \<^verbatim>\<open>A\<close> as \<^verbatim>\<open>x\<close>, the file \<^verbatim>\<open>.env\<close> holds \<^verbatim>\<open>A=1\<close> and \<^verbatim>\<open>C=3\<close>, and
  \<^verbatim>\<open>export\<close> is true: \<^verbatim>\<open>A\<close> keeps \<^verbatim>\<open>x\<close>.
\<close>

theorem export_keeps_defined_keys_witness:
  "get [(js ''A'', js ''x'')] (js ''A'') = Some (js ''x'')
   \<and> get (snd (configSync (deno_host [(js ''.env'', js ''A=1'' @ [LF] @ js ''C=3'')])
                 (no_options\<lparr>opt_export := Some True\<rparr>) [(js ''A'', js ''x'')])) (js ''A'')
       = Some (js ''x'')
   \<and> get (snd (config (deno_host [(js ''.env'', js ''A=1'' @ [LF] @ js ''C=3'')])
                 (no_options\<lparr>opt_export := Some True\<rparr>) [(js ''A'', js ''x'')])) (js ''A'')
       = Some (js ''x'')"
proof -
  have defined: "get [(js ''A'', js ''x'')] (js ''A'') = Some (js ''x'')"
    by (simp add: get_def)
  from defined export_keeps_defined_keys [OF defined] show ?thesis
    by simp
qed

lemma export_example:
  "configSync (deno_host [(js ''.env'', js ''A=1'' @ [LF] @ js ''C=3'')])
     (no_options\<lparr>opt_export := Some True\<rparr>) [(js ''A'', js ''x'')]
   = (Inr [(js ''A'', js ''1''), (js ''C'', js ''3'')],
      [(js ''A'', js ''x''), (js ''C'', js ''3'')])"
  by (simp add: config_eval)

text \<open>
  C10. A call whose \<^verbatim>\<open>export\<close> option is false or left out returns the process environment
  as it was. After any call, every key either has the value it had before, or was undefined
  before and now has the value that the returned map gives it: nothing is removed, nothing
  is changed, and the only writes are of keys of the merged map that were absent.
\<close>

theorem export_frame:
  "(opt_export options \<noteq> Some True \<longrightarrow>
      snd (configSync h options env) = env \<and> snd (config h options env) = env)
   \<and> (get (snd (configSync h options env)) k = get env k
        \<or> (get env k = None \<and> (\<exists>conf v. fst (configSync h options env) = Inr conf
               \<and> get conf k = Some v \<and> get (snd (configSync h options env)) k = Some v)))
   \<and> (get (snd (config h options env)) k = get env k
        \<or> (get env k = None \<and> (\<exists>conf v. fst (config h options env) = Inr conf
               \<and> get conf k = Some v \<and> get (snd (config h options env)) k = Some v)))"
  using snd_configSync [of h options env] snd_config [of h options env]
  by (auto simp: get_export_conf export_spread split: option.splits)

text \<open>With no options (\<^verbatim>\<open>export\<close> left out) the environment comes back unchanged.\<close>

theorem export_frame_witness:
  "opt_export no_options \<noteq> Some True
   \<and> snd (configSync (deno_host [(js ''.env'', js ''A=1'')]) no_options [(js ''B'', js ''x'')])
       = [(js ''B'', js ''x'')]
   \<and> snd (config (deno_host [(js ''.env'', js ''A=1'')]) no_options [(js ''B'', js ''x'')])
       = [(js ''B'', js ''x'')]"
proof -
  have off: "opt_export no_options \<noteq> Some True"
    by (simp add: no_options_def)
  from off export_frame [of no_options] show ?thesis
    by blast
qed



section \<open>The loaders on examples\<close>

text \<open>
  C4. The claim is that every key of the defaults map that is absent from the primary map
  is copied. The code tests \<^verbatim>\<open>key in conf\<close>, which also holds for the names that every plain
  object inherits: with no primary file and a defaults file \<^verbatim>\<open>toString=x\<close>, the defaults map
  binds \<^verbatim>\<open>toString\<close>, the primary map is empty, and the result is empty.
\<close>

theorem defaults_inherited_name_not_copied:
  "parseFile (deno_host [(js ''d'', js ''toString=x'')]) (js ''.env'') = Inr []
   \<and> parseFile (deno_host [(js ''d'', js ''toString=x'')]) (js ''d'') = Inr [(js ''toString'', js ''x'')]
   \<and> configSync (deno_host [(js ''d'', js ''toString=x'')])
        (no_options\<lparr>opt_defaults := Some (js ''d'')\<rparr>) [] = (Inr [], [])"
  by (simp add: config_eval)

text \<open>The example of the specification: \<^verbatim>\<open>A=1\<close> over the defaults \<^verbatim>\<open>A=2\<close>, \<^verbatim>\<open>B=3\<close>.\<close>

lemma defaults_example:
  "configSync (deno_host [(js ''.env'', js ''A=1''), (js ''d'', js ''A=2'' @ [LF] @ js ''B=3'')])
     (no_options\<lparr>opt_defaults := Some (js ''d'')\<rparr>) []
   = (Inr [(js ''A'', js ''1''), (js ''B'', js ''3'')], [])"
  by (simp add: config_eval)




text \<open>
  C8, as claimed, fails where \<^verbatim>\<open>.env\<close> does not exist and \<^verbatim>\<open>.env.defaults\<close> does:
  \<^verbatim>\<open>configSync({})\<close> reads the defaults as well and returns them.
\<close>

theorem no_env_file_but_defaults:
  "file_system [(js ''.env.defaults'', js ''A=1'')] (js ''.env'') = NotFound
   \<and> configSync (deno_host [(js ''.env.defaults'', js ''A=1'')]) no_options []
       = (Inr [(js ''A'', js ''1'')], [])"
  by (simp add: config_eval)

lemma merge_defaults_Nil: "merge_defaults conf [] = conf"
  by (simp add: merge_defaults_def keys_def)

lemma parse_Nil: "parse [] = Inr []"
  by (simp add: parse_eval)

lemma assertSafe_no_example: "assertSafe env conf [] allowEmpty = Inr ()"
  by (simp add: assertSafe_def difference_def keys_def)

lemma export_conf_Nil: "export_conf [] env = env"
  by (simp add: export_conf_def keys_def)

lemma parseFile_missing_as_empty:
  assumes "readFileSync h = Some f" and "f p = NotFound"
  shows "parseFile (h\<lparr>readFileSync := Some (f(p := Contents []))\<rparr>) = parseFile h"
  using assms by (intro ext) (simp add: parseFile_def parse_Nil)

lemma parseFileAsync_missing_as_empty:
  assumes "readFile h p = NotFound"
  shows "parseFileAsync (h\<lparr>readFile := (readFile h)(p := Contents [])\<rparr>) = parseFileAsync h"
  using assms by (intro ext) (simp add: parseFileAsync_def parse_Nil)

lemma configSync_missing_as_empty:
  assumes "readFileSync h = Some f" and "f p = NotFound"
  shows "configSync (h\<lparr>readFileSync := Some (f(p := Contents []))\<rparr>) options env
         = configSync h options env"
  unfolding configSync_def parseFile_missing_as_empty [OF assms] ..

lemma config_missing_as_empty:
  assumes "readFile h p = NotFound"
  shows "config (h\<lparr>readFile := (readFile h)(p := Contents [])\<rparr>) options env
         = config h options env"
  unfolding config_def parseFileAsync_missing_as_empty [OF assms] ..

text \<open>
  C8, amended. A source that is not found is parsed as the empty map, by \<^verbatim>\<open>parseFile\<close> and by
  \<^verbatim>\<open>parseFileAsync\<close>, and any other failure of the read is thrown on as it is. For the
  loaders, with any options: a missing source, whichever it is, gives what an empty file in
  its place gives; with all configured sources missing the result is the empty map and the
  environment is left as it was, and so it is for \<^verbatim>\<open>configSync({})\<close> and \<^verbatim>\<open>config({})\<close>
  with neither \<^verbatim>\<open>.env\<close> nor \<^verbatim>\<open>.env.defaults\<close> present; and a failure of the read of the
  primary source, of the defaults source or, in safe mode, of the example source is what
  the call throws.
\<close>

theorem missing_source_is_empty:
  assumes opts: "opts = spread defaultConfigOptions options"
  shows
  "(readFileSync h = Some f \<and> f p = NotFound \<longrightarrow> parseFile h p = Inr [])
   \<and> (readFile h p = NotFound \<longrightarrow> parseFileAsync h p = Inr [])
   \<and> (readFileSync h = Some f \<and> f p = Fails e \<longrightarrow> parseFile h p = Inl (ReadFailure e))
   \<and> (readFile h p = Fails e \<longrightarrow> parseFileAsync h p = Inl (ReadFailure e))
   \<and> (readFileSync h = Some f \<and> f p = NotFound
        \<longrightarrow> configSync (h\<lparr>readFileSync := Some (f(p := Contents []))\<rparr>) options env
            = configSync h options env)
   \<and> (readFile h p = NotFound
        \<longrightarrow> config (h\<lparr>readFile := (readFile h)(p := Contents [])\<rparr>) options env
            = config h options env)
   \<and> (readFileSync h = Some f \<and> f (path opts) = NotFound \<and> f (defaults opts) = NotFound
        \<and> f (example opts) = NotFound
        \<longrightarrow> configSync h options env = (Inr [], env))
   \<and> (readFile h (path opts) = NotFound \<and> readFile h (defaults opts) = NotFound
        \<and> readFile h (example opts) = NotFound
        \<longrightarrow> config h options env = (Inr [], env))
   \<and> (readFileSync h = Some f \<and> f (js ''.env'') = NotFound \<and> f (js ''.env.defaults'') = NotFound
        \<longrightarrow> configSync h no_options env = (Inr [], env))
   \<and> (readFile h (js ''.env'') = NotFound \<and> readFile h (js ''.env.defaults'') = NotFound
        \<longrightarrow> config h no_options env = (Inr [], env))
   \<and> (readFileSync h = Some f \<and> f (path opts) = Fails e
        \<longrightarrow> configSync h options env = (Inl (ReadFailure e), env))
   \<and> (readFile h (path opts) = Fails e
        \<longrightarrow> config h options env = (Inl (ReadFailure e), env))
   \<and> (readFileSync h = Some f \<and> parseFile h (path opts) = Inr confPrimary
        \<and> defaults opts \<noteq> [] \<and> f (defaults opts) = Fails e
        \<longrightarrow> configSync h options env = (Inl (ReadFailure e), env))
   \<and> (parseFileAsync h (path opts) = Inr confPrimary
        \<and> defaults opts \<noteq> [] \<and> readFile h (defaults opts) = Fails e
        \<longrightarrow> config h options env = (Inl (ReadFailure e), env))
   \<and> (readFileSync h = Some f \<and> parseFile h (path opts) = Inr confPrimary
        \<and> (defaults opts \<noteq> [] \<longrightarrow> parseFile h (defaults opts) = Inr confDefaults)
        \<and> safe opts \<and> f (example opts) = Fails e
        \<longrightarrow> configSync h options env = (Inl (ReadFailure e), env))
   \<and> (parseFileAsync h (path opts) = Inr confPrimary
        \<and> (defaults opts \<noteq> [] \<longrightarrow> parseFileAsync h (defaults opts) = Inr confDefaults)
        \<and> safe opts \<and> readFile h (example opts) = Fails e
        \<longrightarrow> config h options env = (Inl (ReadFailure e), env))"
proof -
  have default_opts: "spread defaultConfigOptions no_options = defaultConfigOptions"
    by (simp add: spread_def no_options_def)
  have default_fields: "path defaultConfigOptions = js ''.env''"
    "defaults defaultConfigOptions = js ''.env.defaults''" "js ''.env.defaults'' \<noteq> []"
    "\<not> safe defaultConfigOptions" "\<not> export defaultConfigOptions"
    by (simp_all add: defaultConfigOptions_def js_def)
  have sync_all: "configSync h options env = (Inr [], env)"
    if "readFileSync h = Some f \<and> f (path opts) = NotFound \<and> f (defaults opts) = NotFound
        \<and> f (example opts) = NotFound"
  proof -
    from that have "parseFile h (path opts) = Inr []" "parseFile h (defaults opts) = Inr []"
      "parseFile h (example opts) = Inr []"
      by (simp_all add: parseFile_def)
    then show ?thesis
      by (simp add: configSync_def opts [symmetric] merge_defaults_Nil assertSafe_no_example
            export_conf_Nil)
  qed
  have async_all: "config h options env = (Inr [], env)"
    if "readFile h (path opts) = NotFound \<and> readFile h (defaults opts) = NotFound
        \<and> readFile h (example opts) = NotFound"
  proof -
    from that have "parseFileAsync h (path opts) = Inr []" "parseFileAsync h (defaults opts) = Inr []"
      "parseFileAsync h (example opts) = Inr []"
      by (simp_all add: parseFileAsync_def)
    then show ?thesis
      by (simp add: config_def opts [symmetric] merge_defaults_Nil assertSafe_no_example
            export_conf_Nil)
  qed
  have sync_default: "configSync h no_options env = (Inr [], env)"
    if "readFileSync h = Some f \<and> f (js ''.env'') = NotFound \<and> f (js ''.env.defaults'') = NotFound"
  proof -
    from that have "parseFile h (js ''.env'') = Inr []" "parseFile h (js ''.env.defaults'') = Inr []"
      by (simp_all add: parseFile_def)
    then show ?thesis
      by (simp add: configSync_def default_opts default_fields merge_defaults_Nil)
  qed
  have async_default: "config h no_options env = (Inr [], env)"
    if "readFile h (js ''.env'') = NotFound \<and> readFile h (js ''.env.defaults'') = NotFound"
  proof -
    from that have "parseFileAsync h (js ''.env'') = Inr []"
      "parseFileAsync h (js ''.env.defaults'') = Inr []"
      by (simp_all add: parseFileAsync_def)
    then show ?thesis
      by (simp add: config_def default_opts default_fields merge_defaults_Nil)
  qed
  have sync_primary: "configSync h options env = (Inl (ReadFailure e), env)"
    if "readFileSync h = Some f \<and> f (path opts) = Fails e"
  proof -
    from that have "parseFile h (path opts) = Inl (ReadFailure e)"
      by (simp add: parseFile_def)
    then show ?thesis
      by (simp add: configSync_def opts [symmetric])
  qed
  have async_primary: "config h options env = (Inl (ReadFailure e), env)"
    if "readFile h (path opts) = Fails e"
  proof -
    from that have "parseFileAsync h (path opts) = Inl (ReadFailure e)"
      by (simp add: parseFileAsync_def)
    then show ?thesis
      by (simp add: config_def opts [symmetric])
  qed
  have sync_defaults: "configSync h options env = (Inl (ReadFailure e), env)"
    if "readFileSync h = Some f \<and> parseFile h (path opts) = Inr confPrimary
        \<and> defaults opts \<noteq> [] \<and> f (defaults opts) = Fails e"
  proof -
    from that have "parseFile h (defaults opts) = Inl (ReadFailure e)"
      by (simp add: parseFile_def)
    with that show ?thesis
      by (simp add: configSync_def opts [symmetric])
  qed
  have async_defaults: "config h options env = (Inl (ReadFailure e), env)"
    if "parseFileAsync h (path opts) = Inr confPrimary
        \<and> defaults opts \<noteq> [] \<and> readFile h (defaults opts) = Fails e"
  proof -
    from that have "parseFileAsync h (defaults opts) = Inl (ReadFailure e)"
      by (simp add: parseFileAsync_def)
    with that show ?thesis
      by (simp add: config_def opts [symmetric])
  qed
  have sync_example: "configSync h options env = (Inl (ReadFailure e), env)"
    if "readFileSync h = Some f \<and> parseFile h (path opts) = Inr confPrimary
        \<and> (defaults opts \<noteq> [] \<longrightarrow> parseFile h (defaults opts) = Inr confDefaults)
        \<and> safe opts \<and> f (example opts) = Fails e"
  proof -
    from that have "parseFile h (example opts) = Inl (ReadFailure e)"
      by (simp add: parseFile_def)
    with that show ?thesis
      by (cases "defaults opts = []") (simp_all add: configSync_def opts [symmetric])
  qed
  have async_example: "config h options env = (Inl (ReadFailure e), env)"
    if "parseFileAsync h (path opts) = Inr confPrimary
        \<and> (defaults opts \<noteq> [] \<longrightarrow> parseFileAsync h (defaults opts) = Inr confDefaults)
        \<and> safe opts \<and> readFile h (example opts) = Fails e"
  proof -
    from that have "parseFileAsync h (example opts) = Inl (ReadFailure e)"
      by (simp add: parseFileAsync_def)
    with that show ?thesis
      by (cases "defaults opts = []") (simp_all add: config_def opts [symmetric])
  qed
  have sync_file: "parseFile h p = Inr []" if "readFileSync h = Some f \<and> f p = NotFound"
    using that by (simp add: parseFile_def)
  have async_file: "parseFileAsync h p = Inr []" if "readFile h p = NotFound"
    using that by (simp add: parseFileAsync_def)
  have sync_file_fails: "parseFile h p = Inl (ReadFailure e)"
    if "readFileSync h = Some f \<and> f p = Fails e"
    using that by (simp add: parseFile_def)
  have async_file_fails: "parseFileAsync h p = Inl (ReadFailure e)" if "readFile h p = Fails e"
    using that by (simp add: parseFileAsync_def)
  have sync_empty: "configSync (h\<lparr>readFileSync := Some (f(p := Contents []))\<rparr>) options env
                    = configSync h options env"
    if "readFileSync h = Some f \<and> f p = NotFound"
    using that by (simp add: configSync_missing_as_empty)
  have async_empty: "config (h\<lparr>readFile := (readFile h)(p := Contents [])\<rparr>) options env
                     = config h options env"
    if "readFile h p = NotFound"
    using that by (rule config_missing_as_empty)
  show ?thesis
    by (intro conjI impI)
       (erule sync_file async_file sync_file_fails async_file_fails sync_empty async_empty
          sync_all async_all sync_default async_default sync_primary async_primary
          sync_defaults async_defaults sync_example async_example)+
qed

text \<open>
  A host with no files at all, and a host on which \<^verbatim>\<open>.env\<close> is missing and the read of
  \<^verbatim>\<open>.env.defaults\<close> is denied.
\<close>

theorem missing_source_is_empty_witness:
  "configSync (deno_host []) no_options [(js ''B'', js ''x'')] = (Inr [], [(js ''B'', js ''x'')])
   \<and> configSync \<lparr> readFileSync = Some (\<lambda>p. if p = js ''.env.defaults'' then Fails PermissionDenied else NotFound),
                   readFile = (\<lambda>p. NotFound) \<rparr>
        no_options [(js ''B'', js ''x'')]
      = (Inl (ReadFailure PermissionDenied), [(js ''B'', js ''x'')])"
proof -
  define denied where "denied = (\<lambda>p. if p = js ''.env.defaults'' then Fails PermissionDenied else NotFound)"
  define h where "h = \<lparr> readFileSync = Some denied, readFile = (\<lambda>p. NotFound) \<rparr>"
  have opts: "spread defaultConfigOptions no_options = defaultConfigOptions"
    by (simp add: spread_def no_options_def)
  have sync: "readFileSync (deno_host []) = Some (file_system [])"
    by (simp add: deno_host_def)
  have absent: "file_system [] (js ''.env'') = NotFound" "file_system [] (js ''.env.defaults'') = NotFound"
    by (simp_all add: file_system_def)
  from sync absent
    missing_source_is_empty [where opts = defaultConfigOptions and options = no_options
      and h = "deno_host []" and f = "file_system []" and env = "[(js ''B'', js ''x'')]"] opts
  have first: "configSync (deno_host []) no_options [(js ''B'', js ''x'')]
               = (Inr [], [(js ''B'', js ''x'')])"
    by simp
  have "readFileSync h = Some denied"
    by (simp add: h_def)
  moreover have "parseFile h (path defaultConfigOptions) = Inr []"
    by (simp add: parseFile_def h_def denied_def defaultConfigOptions_def js_def)
  moreover have "defaults defaultConfigOptions \<noteq> []"
    and "denied (defaults defaultConfigOptions) = Fails PermissionDenied"
    by (simp_all add: denied_def defaultConfigOptions_def js_def)
  ultimately have "configSync h no_options [(js ''B'', js ''x'')]
                   = (Inl (ReadFailure PermissionDenied), [(js ''B'', js ''x'')])"
    using missing_source_is_empty [where opts = defaultConfigOptions and options = no_options
      and h = h and f = denied and e = PermissionDenied and confPrimary = "[]"
      and env = "[(js ''B'', js ''x'')]"] opts
    by simp
  with first show ?thesis
    by (simp add: h_def denied_def)
qed

section \<open>Safe mode\<close>

lemma get_Nil: "get [] k = None"
  by (simp add: get_def)

lemma get_Object_assign:
  "get (Object_assign [] source1 source2) k
   = (case get source2 k of Some v \<Rightarrow> Some v | None \<Rightarrow> get source1 k)"
  by (simp add: Object_assign_def get_assign get_Nil split: option.splits)

lemma map_fst_map_filter:
  assumes "\<And>x y. f x = Some y \<Longrightarrow> fst y = x"
  shows "map fst (List.map_filter f xs) = filter (\<lambda>x. f x \<noteq> None) xs"
  using assms by (induction xs) (auto split: option.splits)

lemma map_fst_removeEmptyValues:
  "map fst (removeEmptyValues ob) = filter (\<lambda>k. \<exists>v. get ob k = Some v \<and> v \<noteq> []) (keys ob)"
proof -
  have "map fst (removeEmptyValues ob)
        = filter (\<lambda>k. (case get ob k of None \<Rightarrow> None | Some v \<Rightarrow> if v = [] then None else Some (k, v)) \<noteq> None)
            (keys ob)"
    unfolding removeEmptyValues_def
    by (rule map_fst_map_filter) (auto split: option.splits if_splits)
  also have "\<dots> = filter (\<lambda>k. \<exists>v. get ob k = Some v \<and> v \<noteq> []) (keys ob)"
    by (rule filter_cong) (auto split: option.splits)
  finally show ?thesis .
qed

lemma in_keys_removeEmptyValues:
  "k \<in> set (keys (removeEmptyValues ob)) \<longleftrightarrow> (\<exists>v. get ob k = Some v \<and> v \<noteq> [])"
proof -
  have "set (keys (removeEmptyValues ob)) = set (map fst (removeEmptyValues ob))"
    by (simp add: set_keys)
  then show ?thesis
    unfolding map_fst_removeEmptyValues by (auto simp: in_keys_iff)
qed

lemma in_keys_present:
  "k \<in> set (keys (if allowEmpty then ob else removeEmptyValues ob)) \<longleftrightarrow> present allowEmpty ob k"
proof (cases allowEmpty)
  case True
  then show ?thesis by (auto simp: in_keys_iff present_def split: option.splits)
next
  case False
  then show ?thesis by (auto simp: in_keys_removeEmptyValues present_def split: option.splits)
qed

lemma distinct_keys: "distinct (keys ob)"
  by (auto simp: keys_def Let_def)

lemma missing_sorted:
  "difference (keys confExample) (keys (if allowEmpty then ob else removeEmptyValues ob))
   = sort (filter (\<lambda>k. \<not> present allowEmpty ob k) (keys confExample))"
  unfolding difference_def in_keys_present
  by (simp add: distinct_keys distinct_remdups_id)

lemma js_not_Nil: "js (c # cs) \<noteq> []"
  by (simp add: js_def)

lemma assertSafe_cases:
  "assertSafe env conf confExample allowEmpty =
     (if \<forall>k \<in> set (keys confExample). present allowEmpty (Object_assign [] (toObject env) conf) k
      then Inr ()
      else Inl (MissingEnvVarsError
        (js ''The following variables were defined in the example file but are not present in the environment:''
         @ [LF] @ js ''  ''
         @ join (js '', '') (sort (filter (\<lambda>k. \<not> present allowEmpty (Object_assign [] (toObject env) conf) k)
                               (keys confExample)))
         @ [LF, LF] @ js ''Make sure to add them to your env file.''
         @ (if allowEmpty then []
            else [LF, LF] @ js ''If you expect any of these variables to be empty, you can set the allowEmptyValues option to true.''))))"
proof -
  have "length (sort (filter (\<lambda>k. \<not> present allowEmpty (Object_assign [] (toObject env) conf) k)
                               (keys confExample))) > 0
        \<longleftrightarrow> \<not> (\<forall>k \<in> set (keys confExample). present allowEmpty (Object_assign [] (toObject env) conf) k)"
    by (simp add: filter_empty_conv)
  then show ?thesis
    unfolding assertSafe_def Let_def missing_sorted
    by (simp add: filter_Boolean_def js_not_Nil)
qed

lemma parse_lines_error: "parse_lines env ls = Inl e \<Longrightarrow> e = TypeError"
  by (induction ls arbitrary: env)
     (auto simp: parse_line_def Let_def split: sum.splits if_splits option.splits)

lemma parseFile_error: "parseFile h p = Inl e \<Longrightarrow> e = TypeError \<or> (\<exists>f. e = ReadFailure f)"
  by (auto simp: parseFile_def parse_def split: option.splits read.splits dest: parse_lines_error)

lemma parseFileAsync_error: "parseFileAsync h p = Inl e \<Longrightarrow> e = TypeError \<or> (\<exists>f. e = ReadFailure f)"
  by (auto simp: parseFileAsync_def parse_def split: option.splits read.splits dest: parse_lines_error)

lemma safe_spread: "safe (spread defaultConfigOptions options) \<longleftrightarrow> opt_safe options = Some True"
  by (simp add: spread_def defaultConfigOptions_def split: option.splits)

lemma configSync_missing:
  assumes "fst (configSync h options env) = Inl (MissingEnvVarsError m)"
  shows "opt_safe options = Some True \<and>
         (\<exists>conf confExample.
             parseFile h (example (spread defaultConfigOptions options)) = Inr confExample \<and>
             assertSafe env conf confExample (allowEmptyValues (spread defaultConfigOptions options))
               = Inl (MissingEnvVarsError m))"
  using assms
  by (auto simp: configSync_def Let_def safe_spread split: sum.splits if_splits dest: parseFile_error)

lemma config_missing:
  assumes "fst (config h options env) = Inl (MissingEnvVarsError m)"
  shows "opt_safe options = Some True \<and>
         (\<exists>conf confExample.
             parseFileAsync h (example (spread defaultConfigOptions options)) = Inr confExample \<and>
             assertSafe env conf confExample (allowEmptyValues (spread defaultConfigOptions options))
               = Inl (MissingEnvVarsError m))"
  using assms
  by (auto simp: config_def Let_def safe_spread split: sum.splits if_splits dest: parseFileAsync_error)

lemma fst_configSync_export:
  "fst (configSync h (options\<lparr>opt_export := e\<rparr>) env) = fst (configSync h options env)"
  by (auto simp: configSync_def Let_def spread_def split: sum.splits)

lemma fst_config_export:
  "fst (config h (options\<lparr>opt_export := e\<rparr>) env) = fst (config h options env)"
  by (auto simp: config_def Let_def spread_def split: sum.splits)






lemma configSync_safe:
  assumes "opts = spread defaultConfigOptions options" and "opt_safe options = Some True"
      and "parseFile h (path opts) = Inr confPrimary"
      and "defaults opts \<noteq> [] \<longrightarrow> parseFile h (defaults opts) = Inr confDefaults"
      and "parseFile h (example opts) = Inr confExample"
      and "merged = (if defaults opts \<noteq> [] then merge_defaults confPrimary confDefaults else confPrimary)"
  shows "fst (configSync h options env)
         = (case assertSafe env merged confExample (allowEmptyValues opts) of
              Inl e \<Rightarrow> Inl e | Inr u \<Rightarrow> Inr merged)"
proof -
  from assms(1,2) have "safe opts"
    by (simp add: safe_spread)
  with assms show ?thesis
    by (cases "defaults opts = []")
       (simp_all add: configSync_def assms(1) [symmetric] split: sum.splits)
qed

lemma config_safe:
  assumes "opts = spread defaultConfigOptions options" and "opt_safe options = Some True"
      and "parseFileAsync h (path opts) = Inr confPrimary"
      and "defaults opts \<noteq> [] \<longrightarrow> parseFileAsync h (defaults opts) = Inr confDefaults"
      and "parseFileAsync h (example opts) = Inr confExample"
      and "merged = (if defaults opts \<noteq> [] then merge_defaults confPrimary confDefaults else confPrimary)"
  shows "fst (config h options env)
         = (case assertSafe env merged confExample (allowEmptyValues opts) of
              Inl e \<Rightarrow> Inl e | Inr u \<Rightarrow> Inr merged)"
proof -
  from assms(1,2) have "safe opts"
    by (simp add: safe_spread)
  with assms show ?thesis
    by (cases "defaults opts = []")
       (simp_all add: config_def assms(1) [symmetric] split: sum.splits)
qed

lemma assertSafe_passes_iff:
  "assertSafe env conf confExample allowEmpty = Inr () \<longleftrightarrow>
     (\<forall>k. get confExample k \<noteq> None \<longrightarrow> present allowEmpty (Object_assign [] (toObject env) conf) k)"
  unfolding assertSafe_cases by (auto simp: in_keys_iff)

lemma assertSafe_error:
  "assertSafe env conf confExample allowEmpty = Inl e \<Longrightarrow> \<exists>m. e = MissingEnvVarsError m"
  unfolding assertSafe_cases by (auto split: if_splits)

text \<open>
  C1, as claimed, fails where the process environment and the file bind the same key: with
  \<^verbatim>\<open>A\<close> set to \<^verbatim>\<open>x\<close> in the environment and \<^verbatim>\<open>A=\<close> in \<^verbatim>\<open>.env\<close>, the object that \<^verbatim>\<open>assertSafe\<close>
  checks binds \<^verbatim>\<open>A\<close> to the empty string of the file, where the overlay of the
  specification binds it to \<^verbatim>\<open>x\<close>; so \<^verbatim>\<open>A\<close>, required by the example file, is reported
  missing although the environment-wins overlay has it present.
\<close>

theorem overlay_file_value_wins:
  "get (Object_assign [] (toObject [(js ''A'', js ''x'')]) [(js ''A'', [])]) (js ''A'') = Some []
   \<and> get (spec_overlay [(js ''A'', js ''x'')] [(js ''A'', [])]) (js ''A'') = Some (js ''x'')
   \<and> present False (spec_overlay [(js ''A'', js ''x'')] [(js ''A'', [])]) (js ''A'')
   \<and> \<not> present False (Object_assign [] (toObject [(js ''A'', js ''x'')]) [(js ''A'', [])]) (js ''A'')
   \<and> configSync (deno_host [(js ''.env'', js ''A=''), (js ''.env.example'', js ''A='')])
         (no_options\<lparr>opt_safe := Some True\<rparr>) [(js ''A'', js ''x'')]
       = (Inl (MissingEnvVarsError
            (js ''The following variables were defined in the example file but are not present in the environment:''
             @ [LF] @ js ''  A'' @ [LF, LF] @ js ''Make sure to add them to your env file.'' @ [LF, LF]
             @ js ''If you expect any of these variables to be empty, you can set the allowEmptyValues option to true.'')),
          [(js ''A'', js ''x'')])"
  by (simp add: config_eval spec_overlay_def present_def)

text \<open>
  C1, amended. The presence check of safe mode is made on \<^verbatim>\<open>Object.assign({}, currentEnv, conf)\<close>,
  where \<^verbatim>\<open>conf\<close> is the merged map: the union of the process environment and the merged
  file-derived map in which the file-derived value wins on every conflicting key. When
  the primary, the defaults and the example source have been read and parsed, a load in
  safe mode, by \<^verbatim>\<open>configSync\<close> or by \<^verbatim>\<open>config\<close>, returns the merged map exactly when every
  key of the example map is present in that object, and throws a \<^verbatim>\<open>MissingEnvVarsError\<close>
  otherwise; \<^verbatim>\<open>assertSafe\<close> passes exactly when every key of the example map is present in
  that object; and the outcome of the call does not depend on the \<^verbatim>\<open>export\<close> option.
\<close>

theorem safe_check_overlay:
  assumes opts: "opts = spread defaultConfigOptions options"
      and merged: "merged = (if defaults opts \<noteq> [] then merge_defaults confPrimary confDefaults
                             else confPrimary)"
  shows
  "get (Object_assign [] (toObject env) conf) k = (case get conf k of Some v \<Rightarrow> Some v | None \<Rightarrow> get env k)
   \<and> (opt_safe options = Some True \<and> parseFile h (path opts) = Inr confPrimary
        \<and> (defaults opts \<noteq> [] \<longrightarrow> parseFile h (defaults opts) = Inr confDefaults)
        \<and> parseFile h (example opts) = Inr confExample
      \<longrightarrow> (fst (configSync h options env) = Inr merged \<longleftrightarrow>
             (\<forall>k'. get confExample k' \<noteq> None \<longrightarrow>
                present (allowEmptyValues opts) (Object_assign [] (toObject env) merged) k'))
          \<and> (fst (configSync h options env) = Inr merged
               \<or> (\<exists>m. fst (configSync h options env) = Inl (MissingEnvVarsError m))))
   \<and> (opt_safe options = Some True \<and> parseFileAsync h (path opts) = Inr confPrimary
        \<and> (defaults opts \<noteq> [] \<longrightarrow> parseFileAsync h (defaults opts) = Inr confDefaults)
        \<and> parseFileAsync h (example opts) = Inr confExample
      \<longrightarrow> (fst (config h options env) = Inr merged \<longleftrightarrow>
             (\<forall>k'. get confExample k' \<noteq> None \<longrightarrow>
                present (allowEmptyValues opts) (Object_assign [] (toObject env) merged) k'))
          \<and> (fst (config h options env) = Inr merged
               \<or> (\<exists>m. fst (config h options env) = Inl (MissingEnvVarsError m))))
   \<and> (assertSafe env conf confExample allowEmpty = Inr () \<longleftrightarrow>
        (\<forall>k'. get confExample k' \<noteq> None \<longrightarrow>
           present allowEmpty (Object_assign [] (toObject env) conf) k'))
   \<and> fst (configSync h (options\<lparr>opt_export := e\<rparr>) env) = fst (configSync h options env)
   \<and> fst (config h (options\<lparr>opt_export := e\<rparr>) env) = fst (config h options env)"
proof -
  have sync: "(fst (configSync h options env) = Inr merged \<longleftrightarrow>
             (\<forall>k'. get confExample k' \<noteq> None \<longrightarrow>
                present (allowEmptyValues opts) (Object_assign [] (toObject env) merged) k'))
          \<and> (fst (configSync h options env) = Inr merged
               \<or> (\<exists>m. fst (configSync h options env) = Inl (MissingEnvVarsError m)))"
    if "opt_safe options = Some True \<and> parseFile h (path opts) = Inr confPrimary
        \<and> (defaults opts \<noteq> [] \<longrightarrow> parseFile h (defaults opts) = Inr confDefaults)
        \<and> parseFile h (example opts) = Inr confExample"
  proof (cases "assertSafe env merged confExample (allowEmptyValues opts)")
    case (Inl err)
    with that configSync_safe [OF opts _ _ _ _ merged, of h confExample env]
    have "fst (configSync h options env) = Inl err"
      by simp
    moreover from Inl obtain m where "err = MissingEnvVarsError m"
      by (auto dest: assertSafe_error)
    moreover from Inl have "assertSafe env merged confExample (allowEmptyValues opts) \<noteq> Inr ()"
      by simp
    then have "\<not> (\<forall>k'. get confExample k' \<noteq> None \<longrightarrow>
                present (allowEmptyValues opts) (Object_assign [] (toObject env) merged) k')"
      unfolding assertSafe_passes_iff .
    ultimately show ?thesis
      by simp
  next
    case (Inr u)
    with that configSync_safe [OF opts _ _ _ _ merged, of h confExample env]
    have "fst (configSync h options env) = Inr merged"
      by simp
    moreover from Inr have "assertSafe env merged confExample (allowEmptyValues opts) = Inr ()"
      by simp
    then have "\<forall>k'. get confExample k' \<noteq> None \<longrightarrow>
                present (allowEmptyValues opts) (Object_assign [] (toObject env) merged) k'"
      unfolding assertSafe_passes_iff .
    ultimately show ?thesis
      by simp
  qed
  have async: "(fst (config h options env) = Inr merged \<longleftrightarrow>
             (\<forall>k'. get confExample k' \<noteq> None \<longrightarrow>
                present (allowEmptyValues opts) (Object_assign [] (toObject env) merged) k'))
          \<and> (fst (config h options env) = Inr merged
               \<or> (\<exists>m. fst (config h options env) = Inl (MissingEnvVarsError m)))"
    if "opt_safe options = Some True \<and> parseFileAsync h (path opts) = Inr confPrimary
        \<and> (defaults opts \<noteq> [] \<longrightarrow> parseFileAsync h (defaults opts) = Inr confDefaults)
        \<and> parseFileAsync h (example opts) = Inr confExample"
  proof (cases "assertSafe env merged confExample (allowEmptyValues opts)")
    case (Inl err)
    with that config_safe [OF opts _ _ _ _ merged, of h confExample env]
    have "fst (config h options env) = Inl err"
      by simp
    moreover from Inl obtain m where "err = MissingEnvVarsError m"
      by (auto dest: assertSafe_error)
    moreover from Inl have "assertSafe env merged confExample (allowEmptyValues opts) \<noteq> Inr ()"
      by simp
    then have "\<not> (\<forall>k'. get confExample k' \<noteq> None \<longrightarrow>
                present (allowEmptyValues opts) (Object_assign [] (toObject env) merged) k')"
      unfolding assertSafe_passes_iff .
    ultimately show ?thesis
      by simp
  next
    case (Inr u)
    with that config_safe [OF opts _ _ _ _ merged, of h confExample env]
    have "fst (config h options env) = Inr merged"
      by simp
    moreover from Inr have "assertSafe env merged confExample (allowEmptyValues opts) = Inr ()"
      by simp
    then have "\<forall>k'. get confExample k' \<noteq> None \<longrightarrow>
                present (allowEmptyValues opts) (Object_assign [] (toObject env) merged) k'"
      unfolding assertSafe_passes_iff .
    ultimately show ?thesis
      by simp
  qed
  have overlay: "get (Object_assign [] (toObject env) conf) k
                 = (case get conf k of Some v \<Rightarrow> Some v | None \<Rightarrow> get env k)"
    by (simp add: get_Object_assign toObject_def)
  show ?thesis
    by (intro conjI impI overlay assertSafe_passes_iff fst_configSync_export fst_config_export)
       (erule sync [THEN conjunct1] sync [THEN conjunct2]
          async [THEN conjunct1] async [THEN conjunct2])+
qed


text \<open>
  A load in safe mode, by \<^verbatim>\<open>configSync\<close> and by \<^verbatim>\<open>config\<close>: \<^verbatim>\<open>.env\<close> holds \<^verbatim>\<open>A=1\<close>,
  \<^verbatim>\<open>.env.defaults\<close> holds \<^verbatim>\<open>B=2\<close>, the example file requires \<^verbatim>\<open>B\<close> and \<^verbatim>\<open>C\<close>, and the
  environment sets \<^verbatim>\<open>C\<close>. The key \<^verbatim>\<open>B\<close> is present by the defaults source only, neither by
  the environment nor by the primary source, and \<^verbatim>\<open>C\<close> by the environment only; the load
  returns the merged map.
\<close>

theorem safe_check_overlay_witness:
  "fst (configSync
         (deno_host [(js ''.env'', js ''A=1''), (js ''.env.defaults'', js ''B=2''),
                     (js ''.env.example'', js ''B='' @ [LF] @ js ''C='')])
         (no_options\<lparr>opt_safe := Some True\<rparr>) [(js ''C'', js ''y'')])
     = Inr [(js ''A'', js ''1''), (js ''B'', js ''2'')]
   \<and> fst (config
         (deno_host [(js ''.env'', js ''A=1''), (js ''.env.defaults'', js ''B=2''),
                     (js ''.env.example'', js ''B='' @ [LF] @ js ''C='')])
         (no_options\<lparr>opt_safe := Some True\<rparr>) [(js ''C'', js ''y'')])
     = Inr [(js ''A'', js ''1''), (js ''B'', js ''2'')]
   \<and> present False
         (Object_assign [] (toObject [(js ''C'', js ''y'')]) [(js ''A'', js ''1''), (js ''B'', js ''2'')])
         (js ''B'')
   \<and> present False
         (Object_assign [] (toObject [(js ''C'', js ''y'')]) [(js ''A'', js ''1''), (js ''B'', js ''2'')])
         (js ''C'')
   \<and> \<not> present False (toObject [(js ''C'', js ''y'')]) (js ''B'')
   \<and> \<not> present False [(js ''A'', js ''1'')] (js ''B'')"
proof -
  let ?h = "deno_host [(js ''.env'', js ''A=1''), (js ''.env.defaults'', js ''B=2''),
                       (js ''.env.example'', js ''B='' @ [LF] @ js ''C='')]"
  let ?options = "no_options\<lparr>opt_safe := Some True\<rparr>"
  let ?opts = "spread defaultConfigOptions ?options"
  let ?env = "[(js ''C'', js ''y'')]"
  let ?merged = "[(js ''A'', js ''1''), (js ''B'', js ''2'')]"
  let ?example = "[(js ''B'', []), (js ''C'', [])]"
  have safe: "opt_safe ?options = Some True"
    by simp
  have primary: "parseFile ?h (path ?opts) = Inr [(js ''A'', js ''1'')]"
    by (simp add: config_eval)
  have dflts: "defaults ?opts \<noteq> [] \<longrightarrow> parseFile ?h (defaults ?opts) = Inr [(js ''B'', js ''2'')]"
    by (simp add: config_eval)
  have example: "parseFile ?h (example ?opts) = Inr ?example"
    by (simp add: config_eval)
  have merged: "?merged = (if defaults ?opts \<noteq> [] then merge_defaults [(js ''A'', js ''1'')] [(js ''B'', js ''2'')]
                           else [(js ''A'', js ''1'')])"
    by (simp add: config_eval)
  have B: "present False (Object_assign [] (toObject ?env) ?merged) (js ''B'')"
    and C: "present False (Object_assign [] (toObject ?env) ?merged) (js ''C'')"
    and nB: "\<not> present False (toObject ?env) (js ''B'')"
    and nB': "\<not> present False [(js ''A'', js ''1'')] (js ''B'')"
    by (simp_all add: config_eval present_def)
  have allow: "allowEmptyValues ?opts = False"
    by (simp add: config_eval)
  have keys: "get ?example k \<noteq> None \<longleftrightarrow> k = js ''B'' \<or> k = js ''C''" for k
    by (simp add: config_eval)
  have all: "\<forall>k'. get ?example k' \<noteq> None \<longrightarrow>
               present (allowEmptyValues ?opts) (Object_assign [] (toObject ?env) ?merged) k'"
    unfolding allow keys using B C by blast
  have primary': "parseFileAsync ?h (path ?opts) = Inr [(js ''A'', js ''1'')]"
    by (simp add: config_eval)
  have dflts': "defaults ?opts \<noteq> [] \<longrightarrow> parseFileAsync ?h (defaults ?opts) = Inr [(js ''B'', js ''2'')]"
    by (simp add: config_eval)
  have example': "parseFileAsync ?h (example ?opts) = Inr ?example"
    by (simp add: config_eval)
  note loads = safe_check_overlay [where h = ?h and confExample = ?example and env = ?env, OF refl merged]
  have "fst (configSync ?h ?options ?env) = Inr ?merged"
    using loads safe primary dflts example all
    by blast
  moreover have "fst (config ?h ?options ?env) = Inr ?merged"
    using loads safe primary' dflts' example' all
    by blast
  ultimately show ?thesis
    using B C nB nB'
    by (intro conjI)
qed




lemma sort_Nil_iff: "sort xs = [] \<longleftrightarrow> xs = []"
  by (metis length_0_conv length_sort)

lemma assertSafe_missing:
  assumes "missing = sort (filter (\<lambda>k. \<not> present allowEmpty (Object_assign [] (toObject env) conf) k)
                             (keys confExample))"
  shows "assertSafe env conf confExample allowEmpty =
     (if missing = [] then Inr ()
      else Inl (MissingEnvVarsError
        (js ''The following variables were defined in the example file but are not present in the environment:''
         @ [LF] @ js ''  '' @ join (js '', '') missing
         @ [LF, LF] @ js ''Make sure to add them to your env file.''
         @ (if allowEmpty then []
            else [LF, LF] @ js ''If you expect any of these variables to be empty, you can set the allowEmptyValues option to true.''))))"
proof -
  have "missing = [] \<longleftrightarrow>
        (\<forall>k \<in> set (keys confExample). present allowEmpty (Object_assign [] (toObject env) conf) k)"
    unfolding assms sort_Nil_iff by (simp add: filter_empty_conv)
  then show ?thesis
    unfolding assertSafe_cases assms [symmetric] by simp
qed

text \<open>
  C2, as claimed, fails with \<^verbatim>\<open>A\<close> set to \<^verbatim>\<open>x\<close> in the environment, \<^verbatim>\<open>A=\<close> in \<^verbatim>\<open>.env\<close> and
  the example file \<^verbatim>\<open>B=\<close>, \<^verbatim>\<open>A=\<close>: the error lists \<^verbatim>\<open>A\<close> and \<^verbatim>\<open>B\<close>, while in the overlay of
  the specification, where the value of the environment wins, \<^verbatim>\<open>A\<close> is present and only \<^verbatim>\<open>B\<close>
  is missing.
\<close>

theorem present_key_listed_missing:
  "configSync (deno_host [(js ''.env'', js ''A=''), (js ''.env.example'', js ''B='' @ [LF] @ js ''A='')])
         (no_options\<lparr>opt_safe := Some True\<rparr>) [(js ''A'', js ''x'')]
       = (Inl (MissingEnvVarsError
            (js ''The following variables were defined in the example file but are not present in the environment:''
             @ [LF] @ js ''  A, B'' @ [LF, LF] @ js ''Make sure to add them to your env file.'' @ [LF, LF]
             @ js ''If you expect any of these variables to be empty, you can set the allowEmptyValues option to true.'')),
          [(js ''A'', js ''x'')])
   \<and> difference (keys [(js ''B'', []), (js ''A'', [])])
        (keys (removeEmptyValues (spec_overlay [(js ''A'', js ''x'')] [(js ''A'', [])]))) = [js ''B'']
   \<and> present False (spec_overlay [(js ''A'', js ''x'')] [(js ''A'', [])]) (js ''A'')"
  by (simp add: config_eval spec_overlay_def present_def)




text \<open>
  C2, amended. When the primary, the defaults and the example source have been read and
  parsed, a load in safe mode, by \<^verbatim>\<open>configSync\<close> or by \<^verbatim>\<open>config\<close>, throws a
  \<^verbatim>\<open>MissingEnvVarsError\<close> if and only if some key of the example map is not present in
  \<^verbatim>\<open>Object.assign({}, currentEnv, conf)\<close>, where \<^verbatim>\<open>conf\<close> is the merged map, and returns the
  merged map otherwise. A key is present if the merged map binds it, or else the
  environment binds it, to a value that is non-empty or, with \<^verbatim>\<open>allowEmptyValues\<close>, to any
  value. The message of the error lists the missing keys, a sorted list without
  repetitions, followed by the hint to add them and, without \<^verbatim>\<open>allowEmptyValues\<close>, the hint
  about that option. This error is not the error of a parse or of a read, and a load
  throws it only in safe mode, only from \<^verbatim>\<open>assertSafe\<close> and only when the example source
  has been read and parsed.
\<close>

theorem missing_keys_error:
  assumes opts: "opts = spread defaultConfigOptions options"
      and merged: "merged = (if defaults opts \<noteq> [] then merge_defaults confPrimary confDefaults
                             else confPrimary)"
      and missing: "missing = sort (filter (\<lambda>k. \<not> present (allowEmptyValues opts)
                                                   (Object_assign [] (toObject env) merged) k)
                                     (keys confExample))"
      and message: "message = js ''The following variables were defined in the example file but are not present in the environment:''
                      @ [LF] @ js ''  '' @ join (js '', '') missing
                      @ [LF, LF] @ js ''Make sure to add them to your env file.''
                      @ (if allowEmptyValues opts then []
                         else [LF, LF] @ js ''If you expect any of these variables to be empty, you can set the allowEmptyValues option to true.'')"
  shows
  "(opt_safe options = Some True \<and> parseFile h (path opts) = Inr confPrimary
      \<and> (defaults opts \<noteq> [] \<longrightarrow> parseFile h (defaults opts) = Inr confDefaults)
      \<and> parseFile h (example opts) = Inr confExample
    \<longrightarrow> fst (configSync h options env)
          = (if missing = [] then Inr merged else Inl (MissingEnvVarsError message)))
   \<and> (opt_safe options = Some True \<and> parseFileAsync h (path opts) = Inr confPrimary
      \<and> (defaults opts \<noteq> [] \<longrightarrow> parseFileAsync h (defaults opts) = Inr confDefaults)
      \<and> parseFileAsync h (example opts) = Inr confExample
    \<longrightarrow> fst (config h options env)
          = (if missing = [] then Inr merged else Inl (MissingEnvVarsError message)))
   \<and> sorted missing \<and> distinct missing
   \<and> (k \<in> set missing \<longleftrightarrow>
        get confExample k \<noteq> None
        \<and> \<not> present (allowEmptyValues opts) (Object_assign [] (toObject env) merged) k)
   \<and> assertSafe env conf confExample allowEmpty =
     (if \<forall>k \<in> set (keys confExample). present allowEmpty (Object_assign [] (toObject env) conf) k
      then Inr ()
      else Inl (MissingEnvVarsError
        (js ''The following variables were defined in the example file but are not present in the environment:''
         @ [LF] @ js ''  ''
         @ join (js '', '') (sort (filter (\<lambda>k. \<not> present allowEmpty (Object_assign [] (toObject env) conf) k)
                               (keys confExample)))
         @ [LF, LF] @ js ''Make sure to add them to your env file.''
         @ (if allowEmpty then []
            else [LF, LF] @ js ''If you expect any of these variables to be empty, you can set the allowEmptyValues option to true.''))))
   \<and> (present allowEmpty (Object_assign [] (toObject env) conf) k \<longleftrightarrow>
        (case get conf k of Some v \<Rightarrow> allowEmpty \<or> v \<noteq> []
         | None \<Rightarrow> (case get env k of Some v \<Rightarrow> allowEmpty \<or> v \<noteq> [] | None \<Rightarrow> False)))
   \<and> MissingEnvVarsError m \<noteq> TypeError \<and> MissingEnvVarsError m \<noteq> ReadFailure f
   \<and> (fst (configSync h options env) = Inl (MissingEnvVarsError m) \<longrightarrow>
        opt_safe options = Some True \<and>
        (\<exists>conf' confExample'.
            parseFile h (example opts) = Inr confExample' \<and>
            assertSafe env conf' confExample' (allowEmptyValues opts) = Inl (MissingEnvVarsError m)))
   \<and> (fst (config h options env) = Inl (MissingEnvVarsError m) \<longrightarrow>
        opt_safe options = Some True \<and>
        (\<exists>conf' confExample'.
            parseFileAsync h (example opts) = Inr confExample' \<and>
            assertSafe env conf' confExample' (allowEmptyValues opts) = Inl (MissingEnvVarsError m)))"
proof -
  note check = assertSafe_missing [OF missing, folded message]
  have sync: "fst (configSync h options env)
          = (if missing = [] then Inr merged else Inl (MissingEnvVarsError message))"
    if "opt_safe options = Some True \<and> parseFile h (path opts) = Inr confPrimary
      \<and> (defaults opts \<noteq> [] \<longrightarrow> parseFile h (defaults opts) = Inr confDefaults)
      \<and> parseFile h (example opts) = Inr confExample"
    using that configSync_safe [OF opts _ _ _ _ merged, of h confExample env]
    by (simp add: check)
  have async: "fst (config h options env)
          = (if missing = [] then Inr merged else Inl (MissingEnvVarsError message))"
    if "opt_safe options = Some True \<and> parseFileAsync h (path opts) = Inr confPrimary
      \<and> (defaults opts \<noteq> [] \<longrightarrow> parseFileAsync h (defaults opts) = Inr confDefaults)
      \<and> parseFileAsync h (example opts) = Inr confExample"
    using that config_safe [OF opts _ _ _ _ merged, of h confExample env]
    by (simp add: check)
  have sorted: "sorted missing" and distinct: "distinct missing"
    unfolding missing by (simp_all add: distinct_keys)
  have members: "k \<in> set missing \<longleftrightarrow>
        get confExample k \<noteq> None
        \<and> \<not> present (allowEmptyValues opts) (Object_assign [] (toObject env) merged) k"
    unfolding missing by (auto simp: in_keys_iff)
  have shape: "present allowEmpty (Object_assign [] (toObject env) conf) k \<longleftrightarrow>
        (case get conf k of Some v \<Rightarrow> allowEmpty \<or> v \<noteq> []
         | None \<Rightarrow> (case get env k of Some v \<Rightarrow> allowEmpty \<or> v \<noteq> [] | None \<Rightarrow> False))"
    by (simp add: present_def get_Object_assign toObject_def split: option.splits)
  have only_sync: "opt_safe options = Some True \<and>
        (\<exists>conf' confExample'.
            parseFile h (example opts) = Inr confExample' \<and>
            assertSafe env conf' confExample' (allowEmptyValues opts) = Inl (MissingEnvVarsError m))"
    if "fst (configSync h options env) = Inl (MissingEnvVarsError m)"
    using configSync_missing [OF that] unfolding opts .
  have only_async: "opt_safe options = Some True \<and>
        (\<exists>conf' confExample'.
            parseFileAsync h (example opts) = Inr confExample' \<and>
            assertSafe env conf' confExample' (allowEmptyValues opts) = Inl (MissingEnvVarsError m))"
    if "fst (config h options env) = Inl (MissingEnvVarsError m)"
    using config_missing [OF that] unfolding opts .
  have d1: "MissingEnvVarsError m \<noteq> TypeError" and d2: "MissingEnvVarsError m \<noteq> ReadFailure f"
    by simp_all
  show ?thesis
    apply (intro conjI)
                apply (rule impI, erule sync)
               apply (rule impI, erule async)
              apply (rule sorted)
             apply (rule distinct)
            apply (rule members)
           apply (rule assertSafe_cases)
          apply (rule shape)
         apply (rule d1)
        apply (rule d2)
       apply (rule impI, erule only_sync)
      apply (rule impI, erule only_async)
    done
qed

text \<open>
  A load in safe mode, by \<^verbatim>\<open>configSync\<close> and by \<^verbatim>\<open>config\<close>: the environment sets \<^verbatim>\<open>A\<close>, \<^verbatim>\<open>.env\<close>
  holds \<^verbatim>\<open>A=\<close>, and the example file requires \<^verbatim>\<open>B\<close> and \<^verbatim>\<open>A\<close>. Both are missing, and the
  message lists them sorted. With \<^verbatim>\<open>allowEmptyValues\<close> and \<^verbatim>\<open>B\<close> set in the environment nothing
  is missing, and the load returns the merged map.
\<close>

theorem missing_keys_error_witness:
  "fst (configSync
         (deno_host [(js ''.env'', js ''A=''), (js ''.env.example'', js ''B='' @ [LF] @ js ''A='')])
         (no_options\<lparr>opt_safe := Some True\<rparr>) [(js ''A'', js ''x'')])
     = Inl (MissingEnvVarsError
            (js ''The following variables were defined in the example file but are not present in the environment:''
             @ [LF] @ js ''  A, B'' @ [LF, LF] @ js ''Make sure to add them to your env file.'' @ [LF, LF]
             @ js ''If you expect any of these variables to be empty, you can set the allowEmptyValues option to true.''))
   \<and> fst (config
         (deno_host [(js ''.env'', js ''A=''), (js ''.env.example'', js ''B='' @ [LF] @ js ''A='')])
         (no_options\<lparr>opt_safe := Some True\<rparr>) [(js ''A'', js ''x'')])
     = Inl (MissingEnvVarsError
            (js ''The following variables were defined in the example file but are not present in the environment:''
             @ [LF] @ js ''  A, B'' @ [LF, LF] @ js ''Make sure to add them to your env file.'' @ [LF, LF]
             @ js ''If you expect any of these variables to be empty, you can set the allowEmptyValues option to true.''))
   \<and> sort (filter (\<lambda>k. \<not> present False
                          (Object_assign [] (toObject [(js ''A'', js ''x'')]) [(js ''A'', [])]) k)
             (keys [(js ''B'', []), (js ''A'', [])]))
     = [js ''A'', js ''B'']
   \<and> fst (configSync
         (deno_host [(js ''.env'', js ''A=''), (js ''.env.example'', js ''B='' @ [LF] @ js ''A='')])
         (no_options\<lparr>opt_safe := Some True, opt_allowEmptyValues := Some True\<rparr>) [(js ''B'', js ''y'')])
     = Inr [(js ''A'', [])]"
proof -
  let ?h = "deno_host [(js ''.env'', js ''A=''), (js ''.env.example'', js ''B='' @ [LF] @ js ''A='')]"
  let ?options = "no_options\<lparr>opt_safe := Some True\<rparr>"
  let ?opts = "spread defaultConfigOptions ?options"
  let ?env = "[(js ''A'', js ''x'')]"
  let ?merged = "[(js ''A'', [])]"
  let ?example = "[(js ''B'', []), (js ''A'', [])]"
  let ?missing = "[js ''A'', js ''B'']"
  let ?message = "js ''The following variables were defined in the example file but are not present in the environment:''
             @ [LF] @ js ''  A, B'' @ [LF, LF] @ js ''Make sure to add them to your env file.'' @ [LF, LF]
             @ js ''If you expect any of these variables to be empty, you can set the allowEmptyValues option to true.''"
  have safe: "opt_safe ?options = Some True"
    by simp
  have allow: "allowEmptyValues ?opts = False"
    by (simp add: config_eval)
  have primary: "parseFile ?h (path ?opts) = Inr ?merged"
    and primary': "parseFileAsync ?h (path ?opts) = Inr ?merged"
    by (simp_all add: config_eval)
  have dflts: "defaults ?opts \<noteq> [] \<longrightarrow> parseFile ?h (defaults ?opts) = Inr []"
    and dflts': "defaults ?opts \<noteq> [] \<longrightarrow> parseFileAsync ?h (defaults ?opts) = Inr []"
    by (simp_all add: config_eval)
  have example: "parseFile ?h (example ?opts) = Inr ?example"
    and example': "parseFileAsync ?h (example ?opts) = Inr ?example"
    by (simp_all add: config_eval)
  have merged: "?merged = (if defaults ?opts \<noteq> [] then merge_defaults ?merged [] else ?merged)"
    by (simp add: config_eval)
  have sorted: "sort (filter (\<lambda>k. \<not> present False (Object_assign [] (toObject ?env) ?merged) k)
                        (keys ?example)) = ?missing"
    by (simp add: config_eval present_def)
  have missing: "?missing = sort (filter (\<lambda>k. \<not> present (allowEmptyValues ?opts)
                                                   (Object_assign [] (toObject ?env) ?merged) k)
                                     (keys ?example))"
    unfolding allow sorted ..
  have message: "?message = js ''The following variables were defined in the example file but are not present in the environment:''
                      @ [LF] @ js ''  '' @ join (js '', '') ?missing
                      @ [LF, LF] @ js ''Make sure to add them to your env file.''
                      @ (if allowEmptyValues ?opts then []
                         else [LF, LF] @ js ''If you expect any of these variables to be empty, you can set the allowEmptyValues option to true.'')"
    unfolding allow by (simp add: config_eval)
  note loads = missing_keys_error [where h = ?h, OF refl merged missing message]
  have nonempty: "?missing \<noteq> []"
    by simp
  have "fst (configSync ?h ?options ?env) = Inl (MissingEnvVarsError ?message)"
    using loads safe primary dflts example nonempty
    by (simp only: simp_thms if_False)
  moreover have "fst (config ?h ?options ?env) = Inl (MissingEnvVarsError ?message)"
    using loads safe primary' dflts' example' nonempty
    by (simp only: simp_thms if_False)
  moreover
  let ?options2 = "no_options\<lparr>opt_safe := Some True, opt_allowEmptyValues := Some True\<rparr>"
  let ?opts2 = "spread defaultConfigOptions ?options2"
  let ?env2 = "[(js ''B'', js ''y'')]"
  have "fst (configSync ?h ?options2 ?env2) = Inr ?merged"
  proof -
    have safe2: "opt_safe ?options2 = Some True"
      by simp
    have allow2: "allowEmptyValues ?opts2 = True"
      by (simp add: config_eval)
    have primary2: "parseFile ?h (path ?opts2) = Inr ?merged"
      by (simp add: config_eval)
    have dflts2: "defaults ?opts2 \<noteq> [] \<longrightarrow> parseFile ?h (defaults ?opts2) = Inr []"
      by (simp add: config_eval)
    have example2: "parseFile ?h (example ?opts2) = Inr ?example"
      by (simp add: config_eval)
    have merged2: "?merged = (if defaults ?opts2 \<noteq> [] then merge_defaults ?merged [] else ?merged)"
      by (simp add: config_eval)
    have missing2: "[] = sort (filter (\<lambda>k. \<not> present (allowEmptyValues ?opts2)
                                                   (Object_assign [] (toObject ?env2) ?merged) k)
                                     (keys ?example))"
      unfolding allow2 by (simp add: config_eval present_def)
    show ?thesis
      using missing_keys_error [where h = ?h, OF refl merged2 missing2 refl]
        safe2 primary2 dflts2 example2
      by (simp only: simp_thms if_True)
  qed
  ultimately show ?thesis
    using sorted by (intro conjI)
qed


section \<open>Quantified character classes\<close>

lemma greedy_star:
  assumes one: "\<And>x xs c. ms s a (x # xs, c) = (if P x then [(xs, c)] else [])"
      and none: "\<And>c. ms s a ([], c) = []"
  shows "ms s (Rep True 0 a) (xs, c)
         = map (\<lambda>n. (drop n xs, c)) (rev [0..<Suc (length (takeWhile P xs))])"
proof (induction xs)
  case Nil
  then show ?case by (simp add: ms_Rep0 none)
next
  case (Cons x xs)
  show ?case
  proof (cases "P x")
    case True
    have "rev [0..<Suc (Suc (length (takeWhile P xs)))]
          = map Suc (rev [0..<Suc (length (takeWhile P xs))]) @ [0]"
      by (simp only: upt_conv_Cons [of 0] map_Suc_upt [symmetric] rev.simps rev_map)
    with True Cons show ?thesis
      by (simp add: ms_Rep0 one again_def comp_def del: upt_Suc)
  next
    case False
    then show ?thesis by (simp add: ms_Rep0 one)
  qed
qed

lemma lazy_star:
  assumes one: "\<And>x xs c. ms s a (x # xs, c) = (if P x then [(xs, c)] else [])"
      and none: "\<And>c. ms s a ([], c) = []"
  shows "ms s (Rep False 0 a) (xs, c)
         = map (\<lambda>n. (drop n xs, c)) [0..<Suc (length (takeWhile P xs))]"
proof (induction xs)
  case Nil
  then show ?case by (simp add: ms_Rep0 none)
next
  case (Cons x xs)
  show ?case
  proof (cases "P x")
    case True
    have "[0..<Suc (Suc (length (takeWhile P xs)))]
          = 0 # map Suc [0..<Suc (length (takeWhile P xs))]"
      by (simp only: upt_conv_Cons [of 0] map_Suc_upt [symmetric])
    with True Cons show ?thesis
      by (simp add: ms_Rep0 one again_def comp_def del: upt_Suc)
  next
    case False
    then show ?thesis by (simp add: ms_Rep0 one)
  qed
qed

lemma concat_first_rev:
  assumes "j \<le> m" and "f j = h # t" and "\<And>i. j < i \<Longrightarrow> i \<le> m \<Longrightarrow> f i = []"
  shows "\<exists>t'. concat (map f (rev [0..<Suc m])) = h # t'"
  using assms
proof (induction m)
  case 0
  then show ?case by simp
next
  case (Suc m)
  show ?case
  proof (cases "j = Suc m")
    case True
    with Suc.prems show ?thesis by simp
  next
    case False
    with Suc.prems have "j \<le> m" and "f (Suc m) = []" by simp_all
    moreover from Suc.IH [OF \<open>j \<le> m\<close> Suc.prems(2)] Suc.prems(3)
    obtain t' where "concat (map f (rev [0..<Suc m])) = h # t'" by auto
    ultimately show ?thesis by simp
  qed
qed

lemma concat_first_upt:
  assumes "j < n" and "f j = h # t" and "\<And>i. i < j \<Longrightarrow> f i = []"
  shows "\<exists>t'. concat (map f [0..<n]) = h # t'"
proof -
  from \<open>j < n\<close> have "[0..<n] = [0..<j] @ j # [Suc j..<n]"
    by (metis less_imp_add_positive upt_add_eq_append upt_conv_Cons less_eq_nat.simps(1))
  then have "concat (map f [0..<n])
             = concat (map f [0..<j]) @ f j @ concat (map f [Suc j..<n])"
    by (simp only: map_append concat_append list.map concat.simps)
  moreover have "concat (map f [0..<j]) = []"
    using assms(3) by simp
  ultimately show ?thesis
    using assms(2) by simp
qed


section \<open>The two patterns on well-formed lines\<close>

lemmas greedy_class = greedy_star [where a = "Cls P" and P = P for P, OF ms.simps(2) ms.simps(1)]
lemmas lazy_class = lazy_star [where a = "Cls P" and P = P for P, OF ms.simps(2) ms.simps(1)]

lemma greedy_dot_or_newline:
  "ms s (Rep True 0 (Alt (Cls is_dot) (Cls (\<lambda>c. c = LF)))) (xs, c)
   = map (\<lambda>n. (drop n xs, c)) (rev [0..<Suc (length (takeWhile (\<lambda>x. is_dot x \<or> x = LF) xs))])"
  by (rule greedy_star) (auto simp: ms.simps is_dot_def LF_def)

lemma greedy_class_none:
  "xs = [] \<or> \<not> P (hd xs) \<Longrightarrow> ms s (Rep True 0 (Cls P)) (xs, c) = [(xs, c)]"
  by (cases xs) (auto simp: greedy_class)

lemma quote_is_dot: "is_quote x \<Longrightarrow> is_dot x"
  by (auto simp: is_quote_def is_dot_def cu_def)

lemma closing_quote_fails:
  assumes "\<forall>x\<in>set t. \<not> is_quote x"
  shows "ms s (Cat (Cls is_quote) Eps) (drop n t, c) = []"
proof (cases "drop n t")
  case Nil
  then show ?thesis by (simp add: ms.simps)
next
  case (Cons x u)
  then have "x \<in> set t"
    by (metis in_set_dropD list.set_intros(1))
  with assms Cons show ?thesis by (simp add: ms.simps)
qed

lemma quoted_branch:
  assumes d1: "is_quote d1" and d2: "is_quote d2"
      and q: "\<forall>x\<in>set q. is_dot x" and t: "\<forall>x\<in>set t. \<not> is_quote x"
  shows "\<exists>tl. ms s (Cat (Cls is_quote)
                    (Cat (Grp QuotedValue (Rep True 0 (Alt (Cls is_dot) (Cls (\<lambda>c. c = LF)))))
                      (Cat (Cls is_quote) Eps)))
                 (d1 # q @ d2 # t, c)
              = (t, c(QuotedValue \<mapsto> q)) # tl"
proof -
  define rest where "rest = q @ d2 # t"
  define m where "m = length (takeWhile (\<lambda>x. is_dot x \<or> x = LF) rest)"
  define f where "f n = ms s (Cat (Cls is_quote) Eps)
                          (drop n rest, c(QuotedValue \<mapsto> take (length rest - length (drop n rest)) rest))"
    for n
  have lhs: "ms s (Cat (Cls is_quote)
                    (Cat (Grp QuotedValue (Rep True 0 (Alt (Cls is_dot) (Cls (\<lambda>c. c = LF)))))
                      (Cat (Cls is_quote) Eps)))
                 (d1 # rest, c)
             = concat (map f (rev [0..<Suc m]))"
    using d1 unfolding f_def m_def
    by (simp add: ms.simps(1-8) greedy_dot_or_newline comp_def del: upt_Suc)
  have "takeWhile (\<lambda>x. is_dot x \<or> x = LF) rest = q @ takeWhile (\<lambda>x. is_dot x \<or> x = LF) (d2 # t)"
    unfolding rest_def using q by (simp add: takeWhile_append2)
  with d2 have jm: "length q \<le> m"
    by (simp add: m_def)
  have fj: "f (length q) = (t, c(QuotedValue \<mapsto> q)) # []"
    using d2 by (simp add: f_def rest_def ms.simps)
  have fi: "f i = []" if "length q < i" for i
  proof -
    from that have "drop i rest = drop (i - Suc (length q)) t"
      by (simp add: rest_def drop_Cons')
    then show ?thesis
      unfolding f_def using closing_quote_fails [OF t] by simp
  qed
  from concat_first_rev [of "length q" m f, OF jm fj fi] lhs show ?thesis
    by (simp add: rest_def)
qed


lemma value_part:
  assumes sp: "\<forall>x\<in>set sp. x = cu CHR '' ''"
      and d1: "is_quote d1" and d2: "is_quote d2"
      and q: "\<forall>x\<in>set q. is_dot x" and t: "\<forall>x\<in>set t. \<not> is_quote x"
  shows "\<exists>tl. ms s (Cat (Rep True 0 (Cls (\<lambda>c. c = cu CHR '' '')))
                    (Cat (Alt (Cat (Cls is_quote)
                                (Cat (Grp QuotedValue (Rep True 0 (Alt (Cls is_dot) (Cls (\<lambda>c. c = LF)))))
                                  (Cat (Cls is_quote) Eps)))
                              (Grp UnQuotedValue (Rep True 0 (Cls (\<lambda>c. c \<noteq> cu CHR ''#'')))))
                      Eps))
                 (sp @ d1 # q @ d2 # t, c)
              = (t, c(QuotedValue \<mapsto> q)) # tl"
proof -
  define alt where "alt = Cat (Alt (Cat (Cls is_quote)
                                (Cat (Grp QuotedValue (Rep True 0 (Alt (Cls is_dot) (Cls (\<lambda>c. c = LF)))))
                                  (Cat (Cls is_quote) Eps)))
                              (Grp UnQuotedValue (Rep True 0 (Cls (\<lambda>c. c \<noteq> cu CHR ''#'')))))
                      Eps"
  define f where "f n = ms s alt (drop n (sp @ d1 # q @ d2 # t), c)" for n
  from d1 have "d1 \<noteq> cu CHR '' ''"
    by (auto simp: is_quote_def cu_def)
  with sp have run: "takeWhile (\<lambda>c. c = cu CHR '' '') (sp @ d1 # q @ d2 # t) = sp"
    by (simp add: takeWhile_append2)
  have lhs: "ms s (Cat (Rep True 0 (Cls (\<lambda>c. c = cu CHR '' ''))) alt) (sp @ d1 # q @ d2 # t, c)
             = concat (map f (rev [0..<Suc (length sp)]))"
    unfolding f_def
    by (simp only: ms.simps(5) greedy_class run map_map comp_def)
  from quoted_branch [OF d1 d2 q t, of s c]
  obtain tl where "f (length sp) = (t, c(QuotedValue \<mapsto> q)) # tl"
    by (auto simp: f_def alt_def ms.simps(1-8))
  from concat_first_rev [of "length sp" "length sp" f, OF le_refl this] lhs
  show ?thesis
    unfolding alt_def by simp
qed

lemma letter_or_digit:
  assumes "is_letter x \<or> is_digit x"
  shows "\<not> is_space x \<and> x \<noteq> cu CHR ''='' \<and> is_alnum_sp x \<and> x \<noteq> LF"
  using assms
  by (auto simp: is_letter_def is_digit_def is_space_def is_alnum_sp_def cu_def LF_def)


lemma ms_Eps: "ms s Eps st = [st]"
  by (cases st) (simp add: ms.simps(4))

lemma key_then_equals_fails:
  assumes "\<not> is_space y" and "y \<noteq> cu CHR ''=''"
  shows "ms s (Cat (Rep True 0 (Cls is_space)) (Cat (Cls (\<lambda>c. c = cu CHR ''='')) r)) (y # ys, c) = []"
proof -
  from assms(1) have "ms s (Rep True 0 (Cls is_space)) (y # ys, c) = [(y # ys, c)]"
    by (simp add: greedy_class_none)
  with assms(2) show ?thesis
    by (simp add: ms.simps(1-8))
qed

lemma key_then_equals:
  "ms s (Cat (Rep True 0 (Cls is_space)) (Cat (Cls (\<lambda>c. c = cu CHR ''='')) r)) (cu CHR ''='' # w, c)
   = ms s r (w, c)"
proof -
  have "\<not> is_space (cu CHR ''='')"
    by (simp add: is_space_def cu_def)
  then have "ms s (Rep True 0 (Cls is_space)) (cu CHR ''='' # w, c) = [(cu CHR ''='' # w, c)]"
    by (simp add: greedy_class_none)
  then show ?thesis
    by (simp add: ms.simps(1-8))
qed

lemma key_group:
  assumes k: "k \<noteq> []" "\<forall>x\<in>set k. \<not> is_space x \<and> x \<noteq> cu CHR ''=''"
      and after: "ms s r (w, c(Key \<mapsto> k)) = h # hs"
  shows "\<exists>tl'. ms s (Cat (Rep True 0 (Cls is_space))
                     (Cat (Grp Key (Rep False (Suc 0) (Cls (\<lambda>c. \<not> is_space c))))
                       (Cat (Rep True 0 (Cls is_space)) (Cat (Cls (\<lambda>c. c = cu CHR ''='')) r))))
                  (k @ cu CHR ''='' # w, c)
               = h # tl'"
proof -
  define r1 where "r1 = Cat (Rep True 0 (Cls is_space)) (Cat (Cls (\<lambda>c. c = cu CHR ''='')) r)"
  from k(1) obtain x k' where k_eq: "k = x # k'"
    by (cases k) auto
  define xs where "xs = k' @ cu CHR ''='' # w"
  define m where "m = length (takeWhile (\<lambda>c. \<not> is_space c) xs)"
  define f where "f n = ms s r1 (drop n xs, c(Key \<mapsto> take (length (x # xs) - length (drop n xs)) (x # xs)))"
    for n
  from k(2) have x: "\<not> is_space x"
    by (simp add: k_eq)
  then have lead: "ms s (Rep True 0 (Cls is_space)) (x # xs, c) = [(x # xs, c)]"
    by (simp add: greedy_class_none)
  have lhs: "ms s (Cat (Rep True 0 (Cls is_space))
                   (Cat (Grp Key (Rep False (Suc 0) (Cls (\<lambda>c. \<not> is_space c)))) r1))
               (x # xs, c)
             = concat (map f [0..<Suc m])"
    using x unfolding f_def m_def
    by (simp add: ms.simps(1-8) lead lazy_class comp_def del: upt_Suc)
  have "takeWhile (\<lambda>c. \<not> is_space c) xs
        = k' @ takeWhile (\<lambda>c. \<not> is_space c) (cu CHR ''='' # w)"
    unfolding xs_def using k(2) by (simp add: k_eq takeWhile_append2)
  then have jm: "length k' < Suc m"
    by (simp add: m_def)
  have "f (length k') = h # hs"
    using after by (simp add: f_def xs_def r1_def k_eq key_then_equals)
  moreover have "f i = []" if "i < length k'" for i
  proof -
    from that obtain y ys where d: "drop i k' = y # ys"
      by (cases "drop i k'") auto
    then have "y \<in> set k'"
      by (metis in_set_dropD list.set_intros(1))
    with k(2) have "\<not> is_space y" "y \<noteq> cu CHR ''=''"
      by (simp_all add: k_eq)
    with that d show ?thesis
      unfolding f_def r1_def xs_def by (simp add: key_then_equals_fails)
  qed
  ultimately obtain tl' where "concat (map f [0..<Suc m]) = h # tl'"
    using concat_first_upt [of "length k'" "Suc m" f, OF jm] by blast
  with lhs show ?thesis
    by (simp add: k_eq xs_def r1_def)
qed

lemma exec_quoted:
  assumes k: "k \<noteq> []" "\<forall>x\<in>set k. is_letter x \<or> is_digit x"
      and sp: "\<forall>x\<in>set sp. x = cu CHR '' ''"
      and d1: "is_quote d1" and d2: "is_quote d2"
      and q: "\<forall>x\<in>set q. is_dot x" and t: "\<forall>x\<in>set t. \<not> is_quote x"
  shows "exec RE_KeyValue (k @ cu CHR ''='' # sp @ d1 # q @ d2 # t)
         = Some ((\<lambda>g. None)(Key \<mapsto> k, QuotedValue \<mapsto> q))"
proof -
  from k(2) have shape: "\<forall>x\<in>set k. \<not> is_space x \<and> x \<noteq> cu CHR ''=''"
    using letter_or_digit by blast
  from value_part [OF sp d1 d2 q t, of "k @ cu CHR ''='' # sp @ d1 # q @ d2 # t" "(\<lambda>g. None)(Key \<mapsto> k)"]
  obtain hs where "ms (k @ cu CHR ''='' # sp @ d1 # q @ d2 # t)
        (Cat (Rep True 0 (Cls (\<lambda>c. c = cu CHR '' '')))
          (Cat (Alt (Cat (Cls is_quote)
                      (Cat (Grp QuotedValue (Rep True 0 (Alt (Cls is_dot) (Cls (\<lambda>c. c = LF)))))
                        (Cat (Cls is_quote) Eps)))
                    (Grp UnQuotedValue (Rep True 0 (Cls (\<lambda>c. c \<noteq> cu CHR ''#'')))))
            Eps))
        (sp @ d1 # q @ d2 # t, (\<lambda>g. None)(Key \<mapsto> k))
      = (t, (\<lambda>g. None)(Key \<mapsto> k, QuotedValue \<mapsto> q)) # hs"
    by blast
  from key_group [OF k(1) shape this]
  obtain hs' where "ms (k @ cu CHR ''='' # sp @ d1 # q @ d2 # t) RE_KeyValue
                      (k @ cu CHR ''='' # sp @ d1 # q @ d2 # t, \<lambda>g. None)
                    = (t, (\<lambda>g. None)(Key \<mapsto> k, QuotedValue \<mapsto> q)) # hs'"
    unfolding RE_KeyValue_def cats_def chr_def by (auto simp: One_nat_def)
  moreover from k(1) obtain x k' where "k = x # k'"
    by (cases k) auto
  ultimately show ?thesis
    by (simp add: exec_def)
qed

lemma test_variable_start:
  assumes k: "k \<noteq> []" "is_letter (hd k)" "\<forall>x\<in>set k. is_letter x \<or> is_digit x"
  shows "test RE_VariableStart (k @ cu CHR ''='' # w)"
proof -
  from k(1) obtain x k' where k_eq: "k = x # k'"
    by (cases k) auto
  define s where "s = x # k' @ cu CHR ''='' # w"
  define r2 where "r2 = Cat (Rep True 0 (Cls is_space)) (Cat (Cls (\<lambda>c. c = cu CHR ''='')) Eps)"
  define f where "f n = ms s r2 (drop n (k' @ cu CHR ''='' # w), \<lambda>g. None)" for n
  from k(2) have x: "is_letter x" "\<not> is_space x"
    using letter_or_digit [of x] by (simp_all add: k_eq)
  have "\<not> is_alnum_sp (cu CHR ''='')"
    by (simp add: is_alnum_sp_def is_letter_def cu_def)
  moreover from k(3) have "\<forall>x\<in>set k'. is_alnum_sp x"
    using letter_or_digit by (simp add: k_eq)
  ultimately have run: "takeWhile is_alnum_sp (k' @ cu CHR ''='' # w) = k'"
    by (simp add: takeWhile_append2)
  have "ms s RE_VariableStart (s, \<lambda>g. None)
        = ms s (Cat (Rep True 0 (Cls is_space))
                 (Cat (Cls is_letter) (Cat (Rep True 0 (Cls is_alnum_sp)) r2))) (s, \<lambda>g. None)"
    by (simp add: RE_VariableStart_def cats_def chr_def r2_def ms.simps(3,5))
  also have "\<dots> = ms s (Cat (Cls is_letter) (Cat (Rep True 0 (Cls is_alnum_sp)) r2))
                     (x # k' @ cu CHR ''='' # w, \<lambda>g. None)"
    using x(2) by (simp add: ms.simps(5) greedy_class_none s_def)
  also have "\<dots> = ms s (Cat (Rep True 0 (Cls is_alnum_sp)) r2) (k' @ cu CHR ''='' # w, \<lambda>g. None)"
    using x(1) by (simp add: ms.simps(2,5))
  also have "\<dots> = concat (map f (rev [0..<Suc (length k')]))"
    unfolding f_def by (simp only: ms.simps(5) greedy_class run map_map comp_def)
  finally have lhs: "ms s RE_VariableStart (s, \<lambda>g. None)
                     = concat (map f (rev [0..<Suc (length k')]))" .
  have "\<not> is_space (cu CHR ''='')"
    by (simp add: is_space_def cu_def)
  then have "f (length k') = (w, \<lambda>g. None) # []"
    by (simp add: f_def r2_def ms.simps(1-8) greedy_class_none)
  from concat_first_rev [of "length k'" "length k'" f, OF le_refl this] lhs
  obtain tl where "ms s RE_VariableStart (s, \<lambda>g. None) = (w, \<lambda>g. None) # tl"
    by auto
  then show ?thesis
    by (simp add: test_def exec_def k_eq s_def)
qed

lemma split_no_separator: "sep \<notin> set xs \<Longrightarrow> split sep xs = [xs]"
  by (induction xs) auto









section \<open>What every match satisfies\<close>

lemma ms_suffix:
  "(ys, c') \<in> set (ms s r (xs, c)) \<Longrightarrow> \<exists>zs. xs = zs @ ys"
proof (induction s r "(xs, c)" arbitrary: xs c ys c' rule: ms.induct)
  case (1 s P c)
  then show ?case by (simp add: ms.simps(1-8))
next
  case (2 s P x xs c)
  then show ?case by (auto simp: ms.simps(1-8) split: if_splits)
next
  case (3 s xs c)
  then show ?case by (auto simp: ms.simps(1-8) split: if_splits)
next
  case (4 s xs c)
  then show ?case by (simp add: ms.simps(1-8))
next
  case (5 s a b xs c)
  from "5.prems" obtain us cm where mid: "(us, cm) \<in> set (ms s a (xs, c))"
    and fin: "(ys, c') \<in> set (ms s b (us, cm))"
    by (auto simp: ms.simps(1-8))
  from "5.hyps"(1) [OF mid] "5.hyps"(2) [OF mid fin] show ?case
    by auto
next
  case (6 s a b xs c)
  then show ?case by (auto simp: ms.simps(1-8))
next
  case (7 s g a xs c)
  then show ?case by (auto simp: ms.simps(1-8))
next
  case (8 s greedy n a xs c)
  from "8.prems" obtain us cm where mid: "(us, cm) \<in> set (ms s a (xs, c))"
    and fin: "(ys, c') \<in> set (ms s (Rep greedy n a) (us, cm))"
    by (auto simp: ms.simps(1-8))
  from "8.hyps"(1) [OF mid] "8.hyps"(2) [OF mid fin] show ?case
    by auto
next
  case (9 s greedy a xs c)
  show ?case
  proof (cases "(ys, c') = (xs, c)")
    case True
    then show ?thesis by simp
  next
    case False
    with "9.prems" have "(ys, c') \<in> set (concat (map (again s greedy a (length xs)) (ms s a (xs, c))))"
      by (auto simp: ms_Rep0 split: if_splits)
    then obtain us cm where mid: "(us, cm) \<in> set (ms s a (xs, c))"
      and "(ys, c') \<in> set (again s greedy a (length xs) (us, cm))"
      by auto
    then have less: "length us < length xs"
      and fin: "(ys, c') \<in> set (ms s (Rep greedy 0 a) (us, cm))"
      by (auto simp: again_def split: if_splits)
    from "9.hyps"(1) [OF mid] "9.hyps"(2) [OF mid _ less fin] show ?thesis
      by auto
  qed
qed


lemma ms_frame:
  "(ys, c') \<in> set (ms s r (xs, c)) \<Longrightarrow> g \<notin> groups_of r \<Longrightarrow> c' g = c g"
proof (induction s r "(xs, c)" arbitrary: xs c ys c' rule: ms.induct)
  case (1 s P c)
  then show ?case by (simp add: ms.simps(1-8))
next
  case (2 s P x xs c)
  then show ?case by (auto simp: ms.simps(1-8) split: if_splits)
next
  case (3 s xs c)
  then show ?case by (auto simp: ms.simps(1-8) split: if_splits)
next
  case (4 s xs c)
  then show ?case by (simp add: ms.simps(1-8))
next
  case (5 s a b xs c)
  from "5.prems" obtain us cm where mid: "(us, cm) \<in> set (ms s a (xs, c))"
    and fin: "(ys, c') \<in> set (ms s b (us, cm))"
    by (auto simp: ms.simps(1-8))
  from "5.hyps"(1) [OF mid] "5.hyps"(2) [OF mid fin] "5.prems"(2) show ?case
    by auto
next
  case (6 s a b xs c)
  then show ?case by (auto simp: ms.simps(1-8))
next
  case (7 s g' a xs c)
  then show ?case by (auto simp: ms.simps(1-8))
next
  case (8 s greedy n a xs c)
  from "8.prems" obtain us cm where mid: "(us, cm) \<in> set (ms s a (xs, c))"
    and fin: "(ys, c') \<in> set (ms s (Rep greedy n a) (us, cm))"
    by (auto simp: ms.simps(1-8))
  from "8.hyps"(1) [OF mid] "8.hyps"(2) [OF mid fin] "8.prems"(2) show ?case
    by auto
next
  case (9 s greedy a xs c)
  show ?case
  proof (cases "(ys, c') = (xs, c)")
    case True
    then show ?thesis by simp
  next
    case False
    with "9.prems" have "(ys, c') \<in> set (concat (map (again s greedy a (length xs)) (ms s a (xs, c))))"
      by (auto simp: ms_Rep0 split: if_splits)
    then obtain us cm where mid: "(us, cm) \<in> set (ms s a (xs, c))"
      and "(ys, c') \<in> set (again s greedy a (length xs) (us, cm))"
      by auto
    then have less: "length us < length xs"
      and fin: "(ys, c') \<in> set (ms s (Rep greedy 0 a) (us, cm))"
      by (auto simp: again_def split: if_splits)
    from "9.hyps"(1) [OF mid] "9.hyps"(2) [OF mid _ less fin] "9.prems"(2) show ?thesis
      by auto
  qed
qed

lemma ms_Cat_iff:
  "st' \<in> set (ms s (Cat a b) st) \<longleftrightarrow> (\<exists>mid \<in> set (ms s a st). st' \<in> set (ms s b mid))"
  by (cases st) (auto simp: ms.simps(1-8))

lemma set_ms_Cat:
  "set (ms s (Cat a b) st) = (\<Union>mid \<in> set (ms s a st). set (ms s b mid))"
  by (cases st) (simp add: ms.simps(5))

lemma quoted_only_between_quotes:
  assumes "(ys, c') \<in> set (ms s RE_KeyValue (xs, \<lambda>g. None))" and "c' QuotedValue = Some q"
  shows "\<exists>pre d1 d2. xs = pre @ d1 # q @ d2 # ys \<and> is_quote d1 \<and> is_quote d2"
proof -
  define before where "before = Cat (Rep True 0 (Cls is_space))
     (Cat (Grp Key (Rep False 1 (Cls (\<lambda>c. \<not> is_space c))))
       (Cat (Rep True 0 (Cls is_space))
         (Cat (Cls (\<lambda>c. c = cu CHR ''=''))
           (Rep True 0 (Cls (\<lambda>c. c = cu CHR '' ''))))))"
  define star where "star = Rep True 0 (Alt (Cls is_dot) (Cls (\<lambda>c. c = LF)))"
  define quoted where "quoted = Cat (Cls is_quote) (Cat (Grp QuotedValue star) (Cat (Cls is_quote) Eps))"
  define unquoted where "unquoted = Grp UnQuotedValue (Rep True 0 (Cls (\<lambda>c. c \<noteq> cu CHR ''#'')))"
  have "\<And>st st'. st' \<in> set (ms s RE_KeyValue st)
          \<longleftrightarrow> (\<exists>mid \<in> set (ms s before st). st' \<in> set (ms s (Alt quoted unquoted) mid))"
    unfolding RE_KeyValue_def cats_def chr_def before_def quoted_def unquoted_def star_def
    by (simp add: set_ms_Cat ms_Eps)
  with assms(1) obtain us cm where mid: "(us, cm) \<in> set (ms s before (xs, \<lambda>g. None))"
    and fin: "(ys, c') \<in> set (ms s (Alt quoted unquoted) (us, cm))"
    by auto
  from ms_frame [OF mid, of QuotedValue] have none: "cm QuotedValue = None"
    by (simp add: before_def)
  from ms_suffix [OF mid] obtain pre where xs: "xs = pre @ us"
    by auto
  have "(ys, c') \<notin> set (ms s unquoted (us, cm))"
  proof
    assume "(ys, c') \<in> set (ms s unquoted (us, cm))"
    from ms_frame [OF this, of QuotedValue] have "c' QuotedValue = cm QuotedValue"
      by (simp add: unquoted_def)
    with assms(2) none show False
      by simp
  qed
  with fin have "(ys, c') \<in> set (ms s quoted (us, cm))"
    by (simp add: ms.simps(6))
  then obtain d1 u1 where us: "us = d1 # u1" and d1: "is_quote d1"
    and "(ys, c') \<in> set (ms s (Cat (Grp QuotedValue star) (Cat (Cls is_quote) Eps)) (u1, cm))"
    unfolding quoted_def by (cases us) (auto simp: ms.simps(1,2,5) split: if_splits)
  then obtain u2 c2 where grp: "(u2, c2) \<in> set (ms s (Grp QuotedValue star) (u1, cm))"
    and close: "(ys, c') \<in> set (ms s (Cat (Cls is_quote) Eps) (u2, c2))"
    by (auto simp: ms_Cat_iff)
  from close obtain d2 where u2: "u2 = d2 # ys" and d2: "is_quote d2" and c': "c' = c2"
    by (cases u2) (auto simp: ms.simps(1,2,4,5) split: if_splits)
  from grp obtain c3 where inner: "(u2, c3) \<in> set (ms s star (u1, cm))"
    and c2: "c2 = c3(QuotedValue \<mapsto> take (length u1 - length u2) u1)"
    by (auto simp: ms.simps(7))
  from ms_suffix [OF inner] obtain zs where u1: "u1 = zs @ u2"
    by auto
  with c2 c' assms(2) have "q = zs"
    by simp
  with xs us u1 u2 d1 d2 show ?thesis
    by auto
qed

lemma exec_from_Some:
  "exec_from s r xs = Some c' \<Longrightarrow>
     \<exists>pre ws ys. xs = pre @ ws \<and> (ys, c') \<in> set (ms s r (ws, \<lambda>g. None))"
proof (induction xs)
  case Nil
  then show ?case by (auto split: list.splits)
next
  case (Cons x xs)
  show ?case
  proof (cases "ms s r (x # xs, \<lambda>g. None)")
    case Nil
    with Cons.prems have "exec_from s r xs = Some c'"
      by simp
    from Cons.IH [OF this] obtain pre ws ys
      where "xs = pre @ ws" "(ys, c') \<in> set (ms s r (ws, \<lambda>g. None))"
      by auto
    then have "x # xs = (x # pre) @ ws \<and> (ys, c') \<in> set (ms s r (ws, \<lambda>g. None))"
      by simp
    then show ?thesis by blast
  next
    case (Cons st sts)
    with Cons.prems have "(fst st, c') \<in> set (ms s r (x # xs, \<lambda>g. None))"
      by (cases st) auto
    then have "x # xs = [] @ (x # xs) \<and> (fst st, c') \<in> set (ms s r (x # xs, \<lambda>g. None))"
      by simp
    then show ?thesis by blast
  qed
qed

lemma exec_quoted_only_between_quotes:
  assumes "exec RE_KeyValue line = Some groups" and "groups QuotedValue = Some q"
  shows "\<exists>pre d1 d2 post. line = pre @ d1 # q @ d2 # post \<and> is_quote d1 \<and> is_quote d2"
proof -
  from exec_from_Some [OF assms(1) [unfolded exec_def]] obtain pre ws ys
    where "line = pre @ ws" "(ys, groups) \<in> set (ms line RE_KeyValue (ws, \<lambda>g. None))"
    by auto
  with quoted_only_between_quotes [of ys groups line ws q] assms(2)
  obtain pre' d1 d2 where "ws = pre' @ d1 # q @ d2 # ys" "is_quote d1" "is_quote d2"
    by auto
  with \<open>line = pre @ ws\<close> have "line = (pre @ pre') @ d1 # q @ d2 # ys \<and> is_quote d1 \<and> is_quote d2"
    by simp
  then show ?thesis
    by blast
qed

lemma parse_quoted_line:
  assumes k: "k \<noteq> []" "is_letter (hd k)" "\<forall>x\<in>set k. is_letter x \<or> is_digit x"
      and sp: "\<forall>x\<in>set sp. x = cu CHR '' ''"
      and d1: "is_quote d1" and d2: "is_quote d2"
      and q: "q \<noteq> []" "\<forall>x\<in>set q. is_dot x"
      and t: "\<forall>x\<in>set t. \<not> is_quote x \<and> x \<noteq> LF"
  shows "parse (k @ cu CHR ''='' # sp @ d1 # q @ d2 # t) = Inr [(k, expandNewlines q)]"
proof -
  define line where "line = k @ cu CHR ''='' # sp @ d1 # q @ d2 # t"
  have "LF \<notin> set k"
    using k(3) letter_or_digit by blast
  moreover have "LF \<notin> set sp"
    using sp by (auto simp: LF_def cu_def)
  moreover have "LF \<notin> set q"
    using q(2) by (auto simp: is_dot_def LF_def)
  moreover have "LF \<noteq> d1" "LF \<noteq> d2"
    using d1 d2 by (auto simp: is_quote_def LF_def cu_def)
  moreover have "LF \<notin> set t"
    using t by auto
  ultimately have "LF \<notin> set line"
    by (simp add: line_def LF_def cu_def)
  then have lines: "split LF line = [line]"
    by (rule split_no_separator)
  from t have t': "\<forall>x\<in>set t. \<not> is_quote x"
    by simp
  have "test RE_VariableStart line"
    unfolding line_def by (rule test_variable_start [OF k])
  moreover have "exec RE_KeyValue line = Some ((\<lambda>g. None)(Key \<mapsto> k, QuotedValue \<mapsto> q))"
    unfolding line_def by (rule exec_quoted [OF k(1,3) sp d1 d2 q(2) t'])
  ultimately have "parse_line [] line = Inr [(k, expandNewlines q)]"
    using q(1) by (simp add: parse_line_def)
  with lines show ?thesis
    by (simp add: parse_def line_def)
qed


section \<open>What the line parser returns\<close>




text \<open>
  C6. The claim is that every line assigning an empty value, \<^verbatim>\<open>KEY=""\<close> included, binds the
  key to the empty string without an error. On \<^verbatim>\<open>KEY=""\<close> and on \<^verbatim>\<open>KEY=''\<close> the group
  \<^verbatim>\<open>quotedValue\<close> is the empty string, which is falsy, so the code calls \<^verbatim>\<open>trim\<close> on the
  group \<^verbatim>\<open>unQuotedValue\<close>, which is \<^verbatim>\<open>undefined\<close>: \<^verbatim>\<open>parse\<close> throws a TypeError.
\<close>

theorem parse_empty_quotes_TypeError:
  "parse (js ''KEY='' @ [cu CHR 0x22, cu CHR 0x22]) = Inl TypeError
   \<and> parse (js ''KEY='' @ [cu CHR 0x27, cu CHR 0x27]) = Inl TypeError"
  by (simp add: parse_eval)

text \<open>The unquoted empty value is bound to the empty string.\<close>

lemma parse_empty_unquoted:
  "parse (js ''KEY='') = Inr [(js ''KEY'', [])]"
  by (simp add: parse_eval)

text \<open>
  C5, as claimed, fails on \<^verbatim>\<open>KEY="abc'\<close>: the value is opened by a double quote and closed
  by a single quote, and \<^verbatim>\<open>parse\<close> treats it as quoted, binding \<^verbatim>\<open>KEY\<close> to \<^verbatim>\<open>abc\<close>. And a
  quoted value cannot span lines: the input is split at every LF before the pattern is
  applied, so \<^verbatim>\<open>KEY="a\<close>, LF, \<^verbatim>\<open>b"\<close> binds \<^verbatim>\<open>KEY\<close> to the unquoted text \<^verbatim>\<open>"a\<close>.
\<close>

theorem mismatched_quotes_are_quoted:
  "parse (js ''KEY='' @ [cu CHR 0x22] @ js ''abc'' @ [cu CHR 0x27]) = Inr [(js ''KEY'', js ''abc'')]
   \<and> parse (js ''KEY='' @ [cu CHR 0x22] @ js ''a'' @ [LF] @ js ''b'' @ [cu CHR 0x22])
       = Inr [(js ''KEY'', cu CHR 0x22 # js ''a'')]"
  by (simp add: parse_eval)

text \<open>
  C5, amended. A value is treated as quoted only when it is enclosed in single or double
  quotes, and the two delimiters need not be the same character. For a key made of letters,
  digits and underscores, then \<^verbatim>\<open>=\<close>, spaces, a quote character, a non-empty content without
  line terminators, a quote character, and a rest of the line without quote characters,
  \<^verbatim>\<open>parse\<close> binds the key to the content with its escaped newlines expanded: the content runs
  to the last quote character of the line and may itself contain quote characters.
  Conversely, whenever the pattern reports a quoted value, that value stands in the line
  between two quote characters.
\<close>

theorem quoted_between_any_quotes:
  "(k \<noteq> [] \<and> is_letter (hd k) \<and> (\<forall>x\<in>set k. is_letter x \<or> is_digit x)
      \<and> (\<forall>x\<in>set sp. x = cu CHR '' '') \<and> is_quote d1 \<and> is_quote d2
      \<and> q \<noteq> [] \<and> (\<forall>x\<in>set q. is_dot x) \<and> (\<forall>x\<in>set t. \<not> is_quote x \<and> x \<noteq> LF)
    \<longrightarrow> parse (k @ cu CHR ''='' # sp @ d1 # q @ d2 # t) = Inr [(k, expandNewlines q)])
   \<and> (exec RE_KeyValue line = Some groups \<and> groups QuotedValue = Some q'
    \<longrightarrow> (\<exists>pre e1 e2 post. line = pre @ e1 # q' @ e2 # post \<and> is_quote e1 \<and> is_quote e2))"
  using parse_quoted_line [of k sp d1 d2 q t] exec_quoted_only_between_quotes [of line groups q']
  by blast

text \<open>
  The line \<^verbatim>\<open>KEY= "it's"' # c\<close>: a space after \<^verbatim>\<open>=\<close>, a content with a quote character in
  it, a single quote closing what a double quote opened, and a comment after it.
\<close>

theorem quoted_between_any_quotes_witness:
  "is_quote (cu CHR 0x22) \<and> is_quote (cu CHR 0x27)
   \<and> parse (js ''KEY'' @ cu CHR ''='' # js '' '' @ cu CHR 0x22 # (js ''it'' @ [cu CHR 0x27] @ js ''s'' @ [cu CHR 0x22])
              @ cu CHR 0x27 # js '' # c'')
       = Inr [(js ''KEY'', js ''it'' @ [cu CHR 0x27] @ js ''s'' @ [cu CHR 0x22])]"
proof -
  have key: "js ''KEY'' \<noteq> []" "is_letter (hd (js ''KEY''))"
    "\<forall>x\<in>set (js ''KEY''). is_letter x \<or> is_digit x"
    by (simp_all add: string_eval class_eval)
  have spaces: "\<forall>x\<in>set (js '' ''). x = cu CHR '' ''"
    by (simp add: string_eval)
  have quotes: "is_quote (cu CHR 0x22)" "is_quote (cu CHR 0x27)"
    by (simp_all add: is_quote_def)
  have content: "js ''it'' @ [cu CHR 0x27] @ js ''s'' @ [cu CHR 0x22] \<noteq> []"
    "\<forall>x\<in>set (js ''it'' @ [cu CHR 0x27] @ js ''s'' @ [cu CHR 0x22]). is_dot x"
    by (simp_all add: string_eval class_eval)
  have rest: "\<forall>x\<in>set (js '' # c''). \<not> is_quote x \<and> x \<noteq> LF"
    by (simp add: string_eval class_eval)
  have "expandNewlines (js ''it'' @ [cu CHR 0x27] @ js ''s'' @ [cu CHR 0x22])
        = js ''it'' @ [cu CHR 0x27] @ js ''s'' @ [cu CHR 0x22]"
    by (simp add: string_eval)
  with key spaces quotes content rest
    quoted_between_any_quotes [of "js ''KEY''" "js '' ''" "cu CHR 0x22" "cu CHR 0x27"
      "js ''it'' @ [cu CHR 0x27] @ js ''s'' @ [cu CHR 0x22]" "js '' # c''"]
  show ?thesis
    by simp
qed

end
